theory Spec2Isabelle
  imports Complex_Main "HOL-Library.Multiset" "HOL-Library.Sublist"
begin

section \<open>The route-planning front end (App.js, WaypointManager.js, SearchBar.js)\<close>

subsection \<open>Data model\<close>

text \<open>
  A location as SearchBar's \<open>handleCitySelect\<close> hands it over:
  \<open>{name, address, lat, lng}\<close>.
\<close>

record location =
  name :: string
  address :: string
  lat :: real
  lng :: real

text \<open>
  A waypoint of App's \<open>waypoints\<close> state is a location with a \<open>type\<close> field, written
  \<open>{...location, type: 'start'}\<close>. The field is a JavaScript string; the handlers only ever
  store \<open>'start'\<close>, \<open>'destination'\<close> and \<open>'waypoint'\<close>, the model allows any string.
\<close>

record waypoint = location +
  wtype :: string

text \<open>
  App's component state (the six \<open>useState\<close> cells). \<open>'r\<close> is the type of the optimisation
  result the backend sends; \<open>None\<close> is JavaScript's \<open>null\<close>.
\<close>

record 'r app_state =
  waypoints :: "waypoint list"
  optimizedRoute :: "'r option"
  isOptimizing :: bool
  backendStatus :: string
  isDarkTheme :: bool
  error :: "string option"

text \<open>WaypointManager's local state: which of the three search bars is open.\<close>

record manager_state =
  showStartSearch :: bool
  showDestSearch :: bool
  showWaypointSearch :: bool

text \<open>
  What \<open>optimizeRoute(orderedWaypoints)\<close> can do, seen from \<open>handleOptimize\<close>: the promise
  resolves with \<open>response.data = {success, data, error}\<close>, or it rejects (the \<open>catch\<close> branch),
  the rejection carrying \<open>err.response?.data?.error\<close> when the backend sent one.
\<close>

datatype 'r outcome =
  Resolved (success: bool) (data: "'r option") (err: "string option")
| Rejected "string option"

subsection \<open>App.js\<close>

definition initial_state :: "'r app_state" where
  "initial_state =
     \<lparr>waypoints = [], optimizedRoute = None, isOptimizing = False,
      backendStatus = ''checking'', isDarkTheme = True, error = None\<rparr>"

definition handleAddWaypoint :: "waypoint \<Rightarrow> 'r app_state \<Rightarrow> 'r app_state" where
  "handleAddWaypoint w s = s\<lparr>waypoints := waypoints s @ [w], error := None\<rparr>"

definition handleClearWaypoints :: "'r app_state \<Rightarrow> 'r app_state" where
  "handleClearWaypoints s = s\<lparr>waypoints := [], optimizedRoute := None, error := None\<rparr>"

text \<open>\<open>a || b\<close> on a possibly missing string: the empty string and \<open>undefined\<close> are falsy.\<close>

definition or_else :: "string option \<Rightarrow> string \<Rightarrow> string" where
  "or_else e d = (case e of None \<Rightarrow> d | Some m \<Rightarrow> if m = [] then d else m)"

text \<open>The object literal \<open>{lat: w.lat, lng: w.lng, name: w.name, address: w.address}\<close>.\<close>

definition payload :: "waypoint \<Rightarrow> location" where
  "payload w = \<lparr>name = name w, address = address w, lat = lat w, lng = lng w\<rparr>"

text \<open>The three selections at the head of \<open>handleOptimize\<close> (and of WaypointManager).\<close>

definition startPoint :: "waypoint list \<Rightarrow> waypoint option" where
  "startPoint ws = find (\<lambda>w. wtype w = ''start'') ws"

definition destination :: "waypoint list \<Rightarrow> waypoint option" where
  "destination ws = find (\<lambda>w. wtype w = ''destination'') ws"

definition intermediateWaypoints :: "waypoint list \<Rightarrow> waypoint list" where
  "intermediateWaypoints ws = filter (\<lambda>w. wtype w = ''waypoint'') ws"

datatype submit_error = InvalidInput

text \<open>
  The part of \<open>handleOptimize\<close> before the request: the guard that rejects, and the list
  \<open>orderedWaypoints\<close> that is sent otherwise.
\<close>

definition orderedWaypoints :: "waypoint list \<Rightarrow> submit_error + location list" where
  "orderedWaypoints ws =
     (case (startPoint ws, destination ws) of
        (Some s, Some d) \<Rightarrow> Inr (map payload ([s] @ intermediateWaypoints ws @ [d]))
      | _ \<Rightarrow> Inl InvalidInput)"

text \<open>
  \<open>handleOptimize\<close>, with the backend as a parameter. The state returned is the one after
  the \<open>finally\<close> block.
\<close>

definition handleOptimize :: "(location list \<Rightarrow> 'r outcome) \<Rightarrow> 'r app_state \<Rightarrow> 'r app_state" where
  "handleOptimize optimizeRoute s =
     (case orderedWaypoints (waypoints s) of
        Inl _ \<Rightarrow> s\<lparr>error := Some ''Please add both start point and destination''\<rparr>
      | Inr ordered \<Rightarrow>
          (let s1 = s\<lparr>isOptimizing := True, error := None\<rparr>;
               s2 = (case optimizeRoute ordered of
                       Resolved ok d e \<Rightarrow>
                         if ok then s1\<lparr>optimizedRoute := d\<rparr>
                         else s1\<lparr>error := Some (or_else e ''Optimization failed'')\<rparr>
                     | Rejected e \<Rightarrow>
                         s1\<lparr>error := Some (or_else e ''Failed to connect to backend'')\<rparr>)
           in s2\<lparr>isOptimizing := False\<rparr>))"

subsection \<open>WaypointManager.js\<close>

definition with_type :: "location \<Rightarrow> string \<Rightarrow> waypoint" where
  "with_type l t = \<lparr>name = name l, address = address l, lat = lat l, lng = lng l, wtype = t\<rparr>"

definition handleStartSelect ::
  "location \<Rightarrow> 'r app_state \<times> manager_state \<Rightarrow> 'r app_state \<times> manager_state" where
  "handleStartSelect l = (\<lambda>(s, m).
     (handleAddWaypoint (with_type l ''start'') s, m\<lparr>showStartSearch := False\<rparr>))"

definition handleDestSelect ::
  "location \<Rightarrow> 'r app_state \<times> manager_state \<Rightarrow> 'r app_state \<times> manager_state" where
  "handleDestSelect l = (\<lambda>(s, m).
     (handleAddWaypoint (with_type l ''destination'') s, m\<lparr>showDestSearch := False\<rparr>))"

definition handleWaypointSelect ::
  "location \<Rightarrow> 'r app_state \<times> manager_state \<Rightarrow> 'r app_state \<times> manager_state" where
  "handleWaypointSelect l = (\<lambda>(s, m).
     (handleAddWaypoint (with_type l ''waypoint'') s, m\<lparr>showWaypointSearch := False\<rparr>))"

subsection \<open>SearchBar.js\<close>

text \<open>
  A JavaScript string is a sequence of UTF-16 code units, and \<open>length\<close>, \<open>trim\<close>,
  \<open>toLowerCase\<close> and \<open>includes\<close> work on that sequence. A code unit is a natural number
  (below 65536) and a string the list of its code units. A string literal of ASCII text is
  written as an Isabelle string, and \<open>units\<close> gives its code units.
\<close>

type_synonym js_string = "nat list"

definition units :: "string \<Rightarrow> js_string" where
  "units s = map of_char s"

record city =
  city_name :: js_string
  state :: js_string
  city_lat :: real
  city_lng :: real

definition INDIAN_CITIES :: "city list" where
  "INDIAN_CITIES =
     [\<lparr>city_name = units ''Chennai'', state = units ''Tamil Nadu'',
       city_lat = 13.0827, city_lng = 80.2707\<rparr>,
      \<lparr>city_name = units ''Coimbatore'', state = units ''Tamil Nadu'',
       city_lat = 11.0168, city_lng = 76.9558\<rparr>,
      \<lparr>city_name = units ''Madurai'', state = units ''Tamil Nadu'',
       city_lat = 9.9252, city_lng = 78.1198\<rparr>,
      \<lparr>city_name = units ''Tiruchirappalli'', state = units ''Tamil Nadu'',
       city_lat = 10.7905, city_lng = 78.7047\<rparr>,
      \<lparr>city_name = units ''Salem'', state = units ''Tamil Nadu'',
       city_lat = 11.6643, city_lng = 78.1460\<rparr>,
      \<lparr>city_name = units ''Tirunelveli'', state = units ''Tamil Nadu'',
       city_lat = 8.7139, city_lng = 77.7567\<rparr>,
      \<lparr>city_name = units ''Erode'', state = units ''Tamil Nadu'',
       city_lat = 11.3410, city_lng = 77.7172\<rparr>,
      \<lparr>city_name = units ''Vellore'', state = units ''Tamil Nadu'',
       city_lat = 12.9165, city_lng = 79.1325\<rparr>,
      \<lparr>city_name = units ''Thoothukudi'', state = units ''Tamil Nadu'',
       city_lat = 8.7642, city_lng = 78.1348\<rparr>,
      \<lparr>city_name = units ''Dindigul'', state = units ''Tamil Nadu'',
       city_lat = 10.3673, city_lng = 77.9803\<rparr>,
      \<lparr>city_name = units ''Thanjavur'', state = units ''Tamil Nadu'',
       city_lat = 10.7870, city_lng = 79.1378\<rparr>,
      \<lparr>city_name = units ''Ranipet'', state = units ''Tamil Nadu'',
       city_lat = 12.9249, city_lng = 79.3333\<rparr>,
      \<lparr>city_name = units ''Sivakasi'', state = units ''Tamil Nadu'',
       city_lat = 9.4523, city_lng = 77.7906\<rparr>,
      \<lparr>city_name = units ''Karur'', state = units ''Tamil Nadu'',
       city_lat = 10.9601, city_lng = 78.0766\<rparr>,
      \<lparr>city_name = units ''Kanchipuram'', state = units ''Tamil Nadu'',
       city_lat = 12.8342, city_lng = 79.7036\<rparr>,
      \<lparr>city_name = units ''Tiruppur'', state = units ''Tamil Nadu'',
       city_lat = 11.1075, city_lng = 77.3398\<rparr>,
      \<lparr>city_name = units ''Nagercoil'', state = units ''Tamil Nadu'',
       city_lat = 8.1790, city_lng = 77.4338\<rparr>,
      \<lparr>city_name = units ''Cuddalore'', state = units ''Tamil Nadu'',
       city_lat = 11.7480, city_lng = 79.7714\<rparr>,
      \<lparr>city_name = units ''Kumbakonam'', state = units ''Tamil Nadu'',
       city_lat = 10.9617, city_lng = 79.3881\<rparr>,
      \<lparr>city_name = units ''Puducherry'', state = units ''Puducherry UT'',
       city_lat = 11.9416, city_lng = 79.8083\<rparr>,
      \<lparr>city_name = units ''Karaikal'', state = units ''Puducherry UT'',
       city_lat = 10.9254, city_lng = 79.8380\<rparr>,
      \<lparr>city_name = units ''Yanam'', state = units ''Puducherry UT'',
       city_lat = 16.7333, city_lng = 82.2167\<rparr>,
      \<lparr>city_name = units ''Mahe'', state = units ''Puducherry UT'',
       city_lat = 11.7009, city_lng = 75.5371\<rparr>,
      \<lparr>city_name = units ''Mumbai'', state = units ''Maharashtra'',
       city_lat = 19.0760, city_lng = 72.8777\<rparr>,
      \<lparr>city_name = units ''Delhi'', state = units ''Delhi'',
       city_lat = 28.7041, city_lng = 77.1025\<rparr>,
      \<lparr>city_name = units ''Bangalore'', state = units ''Karnataka'',
       city_lat = 12.9716, city_lng = 77.5946\<rparr>,
      \<lparr>city_name = units ''Hyderabad'', state = units ''Telangana'',
       city_lat = 17.3850, city_lng = 78.4867\<rparr>,
      \<lparr>city_name = units ''Ahmedabad'', state = units ''Gujarat'',
       city_lat = 23.0225, city_lng = 72.5714\<rparr>,
      \<lparr>city_name = units ''Pune'', state = units ''Maharashtra'',
       city_lat = 18.5204, city_lng = 73.8567\<rparr>,
      \<lparr>city_name = units ''Kolkata'', state = units ''West Bengal'',
       city_lat = 22.5726, city_lng = 88.3639\<rparr>,
      \<lparr>city_name = units ''Surat'', state = units ''Gujarat'',
       city_lat = 21.1702, city_lng = 72.8311\<rparr>,
      \<lparr>city_name = units ''Jaipur'', state = units ''Rajasthan'',
       city_lat = 26.9124, city_lng = 75.7873\<rparr>,
      \<lparr>city_name = units ''Lucknow'', state = units ''Uttar Pradesh'',
       city_lat = 26.8467, city_lng = 80.9462\<rparr>,
      \<lparr>city_name = units ''Kanpur'', state = units ''Uttar Pradesh'',
       city_lat = 26.4499, city_lng = 80.3319\<rparr>,
      \<lparr>city_name = units ''Nagpur'', state = units ''Maharashtra'',
       city_lat = 21.1458, city_lng = 79.0882\<rparr>,
      \<lparr>city_name = units ''Visakhapatnam'', state = units ''Andhra Pradesh'',
       city_lat = 17.6868, city_lng = 83.2185\<rparr>,
      \<lparr>city_name = units ''Bhopal'', state = units ''Madhya Pradesh'',
       city_lat = 23.2599, city_lng = 77.4126\<rparr>,
      \<lparr>city_name = units ''Patna'', state = units ''Bihar'',
       city_lat = 25.5941, city_lng = 85.1376\<rparr>,
      \<lparr>city_name = units ''Vadodara'', state = units ''Gujarat'',
       city_lat = 22.3072, city_lng = 73.1812\<rparr>,
      \<lparr>city_name = units ''Ghaziabad'', state = units ''Uttar Pradesh'',
       city_lat = 28.6692, city_lng = 77.4538\<rparr>,
      \<lparr>city_name = units ''Ludhiana'', state = units ''Punjab'',
       city_lat = 30.9010, city_lng = 75.8573\<rparr>,
      \<lparr>city_name = units ''Agra'', state = units ''Uttar Pradesh'',
       city_lat = 27.1767, city_lng = 78.0081\<rparr>,
      \<lparr>city_name = units ''Kochi'', state = units ''Kerala'',
       city_lat = 9.9312, city_lng = 76.2673\<rparr>,
      \<lparr>city_name = units ''Thiruvananthapuram'', state = units ''Kerala'',
       city_lat = 8.5241, city_lng = 76.9366\<rparr>,
      \<lparr>city_name = units ''Kozhikode'', state = units ''Kerala'',
       city_lat = 11.2588, city_lng = 75.7804\<rparr>]"

text \<open>
  \<open>toLowerCase\<close> is a built-in of the JavaScript engine. On a string whose code units are all
  below 256 (ASCII and Latin-1) it works unit by unit: \<open>A\<close> to \<open>Z\<close> (65 to 90) and the Latin-1
  capitals U+00C0 to U+00DE (192 to 222) other than the multiplication sign U+00D7 (215) move
  up by 32, every other unit stays. On a string with a code unit from 256 on, the result comes
  from the Unicode tables of the engine, which look at neighbouring characters and may change
  the length of the string. These tables are not part of the repository; the conversion of
  such a string is the parameter \<open>unicode\<close>.
\<close>

definition lower_unit :: "nat \<Rightarrow> nat" where
  "lower_unit u =
     (if (65 \<le> u \<and> u \<le> 90) \<or> (192 \<le> u \<and> u \<le> 214) \<or> (216 \<le> u \<and> u \<le> 222) then u + 32 else u)"

definition latin1 :: "js_string \<Rightarrow> bool" where
  "latin1 s = list_all (\<lambda>u. u < 256) s"

definition toLowerCase :: "(js_string \<Rightarrow> js_string) \<Rightarrow> js_string \<Rightarrow> js_string" where
  "toLowerCase unicode s = (if latin1 s then map lower_unit s else unicode s)"

text \<open>
  \<open>trim\<close> strips white space and line terminators from both ends. These are the code units
  U+0009 to U+000D, U+0020, U+00A0, U+1680, U+2000 to U+200A, U+2028, U+2029, U+202F, U+205F,
  U+3000 and U+FEFF.
\<close>

definition is_space :: "nat \<Rightarrow> bool" where
  "is_space u =
     ((9 \<le> u \<and> u \<le> 13) \<or> u = 32 \<or> u = 160 \<or> u = 5760 \<or> (8192 \<le> u \<and> u \<le> 8202) \<or>
      u = 8232 \<or> u = 8233 \<or> u = 8239 \<or> u = 8287 \<or> u = 12288 \<or> u = 65279)"

definition trim :: "js_string \<Rightarrow> js_string" where
  "trim s = rev (dropWhile is_space (rev (dropWhile is_space s)))"

fun startsWith :: "js_string \<Rightarrow> js_string \<Rightarrow> bool" where
  "startsWith s [] = True"
| "startsWith [] (y # ys) = False"
| "startsWith (x # xs) (y # ys) = (x = y \<and> startsWith xs ys)"

text \<open>\<open>s.includes(t)\<close>: \<open>t\<close> occurs in \<open>s\<close> at some position (\<open>includes\<close> is reserved).\<close>

fun includes_str :: "js_string \<Rightarrow> js_string \<Rightarrow> bool" where
  "includes_str [] t = (t = [])"
| "includes_str (x # xs) t = (startsWith (x # xs) t \<or> includes_str xs t)"

text \<open>The predicate handed to \<open>INDIAN_CITIES.filter\<close>.\<close>

definition city_matches :: "(js_string \<Rightarrow> js_string) \<Rightarrow> js_string \<Rightarrow> city \<Rightarrow> bool" where
  "city_matches unicode searchTerm c =
     (includes_str (toLowerCase unicode (city_name c)) (toLowerCase unicode searchTerm) \<or>
      includes_str (toLowerCase unicode (state c)) (toLowerCase unicode searchTerm))"

record search_state =
  searchTerm :: js_string
  filteredCities :: "city list"
  showResults :: bool

text \<open>The effect that runs whenever \<open>searchTerm\<close> changes.\<close>

definition search_effect :: "(js_string \<Rightarrow> js_string) \<Rightarrow> search_state \<Rightarrow> search_state" where
  "search_effect unicode s =
     (if 2 \<le> length (trim (searchTerm s))
      then s\<lparr>filteredCities := take 8 (filter (city_matches unicode (searchTerm s)) INDIAN_CITIES),
             showResults := True\<rparr>
      else s\<lparr>filteredCities := [], showResults := False\<rparr>)"

text \<open>Typing into the input: \<open>setSearchTerm(e.target.value)\<close>, then the effect.\<close>

definition onChange :: "(js_string \<Rightarrow> js_string) \<Rightarrow> js_string \<Rightarrow> search_state \<Rightarrow> search_state" where
  "onChange unicode t s = search_effect unicode (s\<lparr>searchTerm := t\<rparr>)"

text \<open>
  The result rows that are rendered:
  \<open>showResults && filteredCities.length > 0 && filteredCities.map(...)\<close>.
\<close>

definition shown_results :: "search_state \<Rightarrow> city list" where
  "shown_results s = (if showResults s \<and> filteredCities s \<noteq> [] then filteredCities s else [])"

subsection \<open>Containing a term, ignoring case\<close>

text \<open>
  What it means that a text contains a term ignoring case, said without \<open>toLowerCase\<close>,
  \<open>includes\<close> or any other function of the code. A capital letter of ASCII or Latin-1 and its
  small letter are 32 apart. Two code units are the same ignoring case when they are equal or
  one is a capital letter and the other its small letter.
\<close>

definition capital :: "nat \<Rightarrow> bool" where
  "capital u = (u \<in> {65..90} \<union> {192..214} \<union> {216..222})"

definition same_ignoring_case :: "nat \<Rightarrow> nat \<Rightarrow> bool" where
  "same_ignoring_case a b = (a = b \<or> (capital a \<and> b = a + 32) \<or> (capital b \<and> a = b + 32))"

text \<open>
  A term occurs in a text ignoring case when some contiguous part of the text has the length
  of the term and is, unit by unit, the same as the term ignoring case.
\<close>

definition occurs_ignoring_case :: "js_string \<Rightarrow> js_string \<Rightarrow> bool" where
  "occurs_ignoring_case text term =
     (\<exists>before part after. text = before @ part @ after \<and> list_all2 same_ignoring_case part term)"

text \<open>
  A text of the city table contains a search term ignoring case: for a term of ASCII and
  Latin-1 code units (all at most 255), the term occurs in the text ignoring case. For a term
  with a code unit beyond Latin-1, letter case is what the Unicode conversion of the engine
  says: the converted term has no capital letter of ASCII or Latin-1 left and occurs in the
  text ignoring case.
\<close>

definition contains_ignoring_case ::
  "(js_string \<Rightarrow> js_string) \<Rightarrow> js_string \<Rightarrow> js_string \<Rightarrow> bool" where
  "contains_ignoring_case unicode text term =
     (if list_all (\<lambda>u. u \<le> 255) term then occurs_ignoring_case text term
      else list_all (\<lambda>u. \<not> capital u) (unicode term) \<and> occurs_ignoring_case text (unicode term))"

subsection \<open>Sample inputs of the front end\<close>

text \<open>Four locations as the search bar produces them, and an App state holding them.\<close>

definition chennai :: location where
  "chennai = \<lparr>name = ''Chennai'', address = ''Chennai, Tamil Nadu'', lat = 13.0827, lng = 80.2707\<rparr>"

definition madurai :: location where
  "madurai = \<lparr>name = ''Madurai'', address = ''Madurai, Tamil Nadu'', lat = 9.9252, lng = 78.1198\<rparr>"

definition salem :: location where
  "salem = \<lparr>name = ''Salem'', address = ''Salem, Tamil Nadu'', lat = 11.6643, lng = 78.1460\<rparr>"

definition kochi :: location where
  "kochi = \<lparr>name = ''Kochi'', address = ''Kochi, Kerala'', lat = 9.9312, lng = 76.2673\<rparr>"

definition example_waypoints :: "waypoint list" where
  "example_waypoints =
     [with_type salem ''waypoint'', with_type chennai ''start'', with_type kochi ''destination'',
      with_type madurai ''waypoint'']"

definition example_state :: "nat list app_state" where
  "example_state = initial_state\<lparr>waypoints := example_waypoints, optimizedRoute := Some [0, 1, 2, 3]\<rparr>"

definition no_search :: manager_state where
  "no_search = \<lparr>showStartSearch = False, showDestSearch = False, showWaypointSearch = False\<rparr>"

text \<open>
  A start point and one stop, with no destination yet, in a fresh App state, and a backend
  that answers every request with success.
\<close>

definition start_and_stop :: "waypoint list" where
  "start_and_stop = [with_type chennai ''start'', with_type madurai ''waypoint'']"

definition willing_backend :: "location list \<Rightarrow> nat list outcome" where
  "willing_backend sent = Resolved True (Some [0..<length sent]) None"

text \<open>
  A Unicode conversion for the search samples. It knows two characters beyond Latin-1, the
  Kelvin sign U+212A with the small letter \<open>k\<close> and the Angstrom sign U+212B with the small
  letter U+00E5, and treats every other code unit as \<open>toLowerCase\<close> treats Latin-1.
\<close>

definition sample_unicode :: "js_string \<Rightarrow> js_string" where
  "sample_unicode s = map (\<lambda>u. if u = 8490 then 107 else if u = 8491 then 229 else lower_unit u) s"

text \<open>The search bar before anything is typed.\<close>

definition empty_search :: search_state where
  "empty_search = \<lparr>searchTerm = [], filteredCities = [], showResults = False\<rparr>"

text \<open>
  Search terms: \<open>tAMil\<close> in mixed case, a single letter between two spaces, a single letter
  between two no-break spaces, and \<open>OCHI\<close> after a Kelvin sign.
\<close>

definition term_tamil :: js_string where
  "term_tamil = units ''tAMil''"

definition term_spaced :: js_string where
  "term_spaced = units '' a ''"

definition term_nbsp :: js_string where
  "term_nbsp = [160, 97, 160]"

definition term_kelvin :: js_string where
  "term_kelvin = 8490 # units ''OCHI''"

section \<open>The optimiser, modelled from the specification\<close>

text \<open>
  The optimiser itself (the backend's hybrid optimiser that the front end calls through
  \<open>/optimize-route\<close>) is not among the sources; only its caller is. Every definition of this
  section is therefore written from the specification, section by section. Distances and keys
  are real numbers. Where the specification leaves a constant or a choice open, it is a field
  of the configuration or it is named in the text before the definition.
\<close>

subsection \<open>Data model (specification, section 3)\<close>

text \<open>Modelled from the spec: the Location record \<open>{id, latitude, longitude, label}\<close>.\<close>

record opt_location =
  loc_id :: nat
  latitude :: real
  longitude :: real
  label :: string

text \<open>Modelled from the spec: one entry \<open>(distance_km, duration_min)\<close> of the Distance Matrix.\<close>

record entry =
  distance_km :: real
  duration_min :: real

text \<open>Modelled from the spec: the Distance Matrix, read at an ordered pair of location indices.\<close>

type_synonym matrix = "nat \<Rightarrow> nat \<Rightarrow> entry"

text \<open>
  Modelled from the spec: an entry as the routing provider delivers it; \<open>None\<close> stands for a
  non-finite value, which is replaced by the penalty constant when the matrix is loaded.
\<close>

type_synonym raw_matrix = "nat \<Rightarrow> nat \<Rightarrow> real option \<times> real option"

text \<open>Modelled from the spec: loading the provider's matrix, with the penalty substitution.\<close>

definition load_matrix :: "real \<Rightarrow> raw_matrix \<Rightarrow> matrix" where
  "load_matrix penalty raw i j =
     \<lparr>distance_km = (case fst (raw i j) of Some d \<Rightarrow> d | None \<Rightarrow> penalty),
      duration_min = (case snd (raw i j) of Some d \<Rightarrow> d | None \<Rightarrow> penalty)\<rparr>"

text \<open>
  Modelled from the spec: a Candidate, the key vector with its cached fitness. A Tour is the
  list of interior indices in visiting order; for \<open>n\<close> locations the interior indices are
  \<open>1, ..., n - 2\<close>, and the key of interior index \<open>i\<close> is entry \<open>i - 1\<close> of the key vector.
\<close>

record candidate =
  keys :: "real list"
  cost :: real

text \<open>Modelled from the spec: a valid Tour for \<open>n\<close> locations, a permutation of the interior indices.\<close>

definition valid_tour :: "nat \<Rightarrow> nat list \<Rightarrow> bool" where
  "valid_tour n t = (mset t = mset [1..<n - 1])"

text \<open>
  Modelled from the spec: the explicit random generator that is threaded through the phases.
  The seed fixes the sequence of uniform draws; the state is the sequence and the number of
  draws taken.
\<close>

type_synonym rng = "(nat \<Rightarrow> real) \<times> nat"

text \<open>Modelled from the spec: one uniform draw \<open>U(0,1)\<close>, returned with the advanced generator.\<close>

definition uniform :: "rng \<Rightarrow> real \<times> rng" where
  "uniform g = (fst g (snd g), (fst g, Suc (snd g)))"

text \<open>
  Modelled from the spec: the optional configuration of section 6 (population size, iteration
  budgets \<open>T1\<close> and \<open>T2\<close>, cooling factor, spiral constant \<open>b\<close>, random seed) together with the
  constants the phases of section 4 use without fixing them: the patience, the rotation angle
  at full scale, the starting temperature, the pass cap of the refiner, the penalty for
  non-finite matrix entries and the speed that turns a great-circle distance into a duration.
\<close>

record config =
  pop_size :: nat
  T1 :: nat
  T2 :: nat
  patience :: nat
  rotation :: real
  temperature :: real
  cooling :: real
  spiral_b :: real
  pass_cap :: nat
  penalty :: real
  fallback_speed_kmh :: real
  seed :: "nat \<Rightarrow> real"

subsection \<open>Candidate Codec (specification, section 4.1)\<close>

text \<open>
  Modelled from the spec: \<open>decode\<close> sorts the interior indices by key, ascending; the sort is
  stable on the ascending list of indices, so equal keys are ordered by index.
\<close>

definition decode :: "real list \<Rightarrow> nat list" where
  "decode ks = sort_key (\<lambda>i. ks ! (i - 1)) [1..<Suc (length ks)]"

text \<open>Modelled from the spec: the position at which a tour visits an index.\<close>

definition position :: "nat list \<Rightarrow> nat \<Rightarrow> nat" where
  "position t i = length (takeWhile (\<lambda>j. j \<noteq> i) t)"

text \<open>
  Modelled from the spec: \<open>encode\<close> gives evenly spaced keys that follow the tour order. The
  spacing is not fixed by the text; here the index visited at position \<open>p\<close> (counted from 0) of
  a tour of length \<open>d\<close> gets the key \<open>(p + 1) / (d + 1)\<close>.
\<close>

definition encode :: "nat list \<Rightarrow> real list" where
  "encode t =
     map (\<lambda>i. real (Suc (position t i)) / real (Suc (length t))) [1..<Suc (length t)]"

text \<open>Modelled from the spec: the full path start, interior in tour order, end.\<close>

definition expand :: "nat \<Rightarrow> nat list \<Rightarrow> nat list" where
  "expand n t = 0 # t @ [n - 1]"

text \<open>
  Modelled from the spec: the cost of a path, the sum of \<open>distance_km\<close> over its consecutive
  pairs; the duration is summed in the same way, for reporting only.
\<close>

fun path_cost :: "matrix \<Rightarrow> nat list \<Rightarrow> real" where
  "path_cost m (a # b # p) = distance_km (m a b) + path_cost m (b # p)"
| "path_cost m p = 0"

text \<open>Modelled from the spec: the duration of a path, computed like its cost.\<close>

fun path_duration :: "matrix \<Rightarrow> nat list \<Rightarrow> real" where
  "path_duration m (a # b # p) = duration_min (m a b) + path_duration m (b # p)"
| "path_duration m p = 0"

text \<open>Modelled from the spec: \<open>fitness\<close>, the cost of the full path of a tour.\<close>

definition fitness :: "matrix \<Rightarrow> nat \<Rightarrow> nat list \<Rightarrow> real" where
  "fitness m n t = path_cost m (expand n t)"

text \<open>Modelled from the spec: decoding a key vector and caching its fitness.\<close>

definition evaluate :: "matrix \<Rightarrow> nat \<Rightarrow> real list \<Rightarrow> candidate" where
  "evaluate m n ks = \<lparr>keys = ks, cost = fitness m n (decode ks)\<rparr>"

text \<open>
  Modelled from the spec: the better of two candidates, the second one only when it is strictly
  cheaper, so the best-ever candidate is never replaced by a worse one.
\<close>

definition better :: "candidate \<Rightarrow> candidate \<Rightarrow> candidate" where
  "better a b = (if cost b < cost a then b else a)"

text \<open>Modelled from the spec: the elite of a population, starting from the best so far.\<close>

definition elite :: "candidate \<Rightarrow> candidate list \<Rightarrow> candidate" where
  "elite b cs = foldl better b cs"

subsection \<open>Quantum Exploration Phase (specification, section 4.2)\<close>

text \<open>
  Modelled from the spec: the state of one member of the population, the amplitude pair
  \<open>(\<alpha>, \<beta>)\<close> of every dimension and the candidate it currently holds.
\<close>

record member =
  amps :: "(real \<times> real) list"
  current :: candidate

text \<open>
  Modelled from the spec: step 1, the rotation of an amplitude pair by an angle. The rotation
  keeps \<open>\<alpha>\<^sup>2 + \<beta>\<^sup>2\<close>; a positive angle moves weight from \<open>\<beta>\<close> to \<open>\<alpha>\<close>, the weight of the best key.
\<close>

definition rotate :: "real \<Rightarrow> real \<times> real \<Rightarrow> real \<times> real" where
  "rotate \<theta> = (\<lambda>(a, b). (a * cos \<theta> + b * sin \<theta>, b * cos \<theta> - a * sin \<theta>))"

text \<open>
  Modelled from the spec: step 2, the collapse of every dimension to a key,
  \<open>key = \<alpha>\<^sup>2 * bestKey[dim] + \<beta>\<^sup>2 * U(0,1)\<close>, one draw per dimension.
\<close>

fun collapse :: "(real \<times> real) list \<Rightarrow> real list \<Rightarrow> rng \<Rightarrow> real list \<times> rng" where
  "collapse ((a, b) # ab) (k # bestKey) g =
     (let (u, g1) = uniform g;
          (ks, g2) = collapse ab bestKey g1
      in ((a\<^sup>2 * k + b\<^sup>2 * u) # ks, g2))"
| "collapse ab bestKey g = ([], g)"

text \<open>
  Modelled from the spec: steps 1 to 4 for one member at angle \<open>\<theta>\<close> and temperature \<open>temp\<close>.
  An improvement replaces the held candidate; anything else is accepted when a uniform draw
  is below \<open>exp (- \<Delta> / temp)\<close>.
\<close>

definition quantum_step ::
  "matrix \<Rightarrow> nat \<Rightarrow> real \<Rightarrow> real \<Rightarrow> real list \<Rightarrow> member \<Rightarrow> rng \<Rightarrow> member \<times> rng" where
  "quantum_step m n \<theta> temp bestKey q g =
     (let ab = map (rotate \<theta>) (amps q);
          (ks, g1) = collapse ab bestKey g;
          c = evaluate m n ks;
          delta = cost c - cost (current q)
      in if delta < 0 then (\<lparr>amps = ab, current = c\<rparr>, g1)
         else (let (u, g2) = uniform g1
               in (\<lparr>amps = ab, current = (if u < exp (- delta / temp) then c else current q)\<rparr>,
                   g2)))"

text \<open>Modelled from the spec: steps 1 to 4 for every member of the population, in order.\<close>

fun quantum_sweep ::
  "matrix \<Rightarrow> nat \<Rightarrow> real \<Rightarrow> real \<Rightarrow> real list \<Rightarrow> member list \<Rightarrow> rng \<Rightarrow> member list \<times> rng" where
  "quantum_sweep m n \<theta> temp bestKey [] g = ([], g)"
| "quantum_sweep m n \<theta> temp bestKey (q # qs) g =
     (let (q', g1) = quantum_step m n \<theta> temp bestKey q g;
          (qs', g2) = quantum_sweep m n \<theta> temp bestKey qs g1
      in (q' # qs', g2))"

text \<open>
  Modelled from the spec: what a phase carries from one iteration to the next: the population,
  the running global best, the count of iterations in a row without a new global best, the
  temperature, and the generator.
\<close>

record 'p phase_state =
  population :: "'p list"
  leader :: candidate
  stall :: nat
  temp :: real
  gen :: rng

text \<open>
  Modelled from the spec: iteration \<open>t\<close> of the Quantum phase. The angle is
  \<open>rotation * (1 - t / T1)\<close>; after the sweep the global best is updated and the temperature is
  multiplied by the cooling factor.
\<close>

definition quantum_iteration ::
  "config \<Rightarrow> matrix \<Rightarrow> nat \<Rightarrow> nat \<Rightarrow> member phase_state \<Rightarrow> member phase_state" where
  "quantum_iteration cfg m n t st =
     (let \<theta> = rotation cfg * (1 - real t / real (T1 cfg));
          (pop, g) = quantum_sweep m n \<theta> (temp st) (keys (leader st)) (population st) (gen st);
          best = elite (leader st) (map current pop)
      in \<lparr>population = pop, leader = best,
          stall = (if cost best < cost (leader st) then 0 else Suc (stall st)),
          temp = cooling cfg * temp st, gen = g\<rparr>)"

text \<open>
  Modelled from the spec: the loop of a phase over its iteration budget. \<open>left\<close> is the part of
  the budget that remains and \<open>t\<close> the number of the next iteration. Between iterations the
  deadline or cancellation signal is checked, then the patience. The result is the state, the
  number of iterations run, and whether the signal ended the phase.
\<close>

fun phase_loop ::
  "(nat \<Rightarrow> 'p phase_state \<Rightarrow> 'p phase_state) \<Rightarrow> nat \<Rightarrow> (nat \<Rightarrow> bool) \<Rightarrow> nat \<Rightarrow> nat \<Rightarrow>
   'p phase_state \<Rightarrow> 'p phase_state \<times> nat \<times> bool" where
  "phase_loop step pat signal 0 t st = (st, t - 1, False)"
| "phase_loop step pat signal (Suc left) t st =
     (if signal t then (st, t - 1, True)
      else if pat \<le> stall st then (st, t - 1, False)
      else phase_loop step pat signal left (Suc t) (step t st))"

text \<open>Modelled from the spec: a key vector of \<open>d\<close> uniform draws.\<close>

fun draw_keys :: "nat \<Rightarrow> rng \<Rightarrow> real list \<times> rng" where
  "draw_keys 0 g = ([], g)"
| "draw_keys (Suc d) g =
     (let (u, g1) = uniform g; (ks, g2) = draw_keys d g1 in (u # ks, g2))"

text \<open>
  Modelled from the spec: \<open>k\<close> members with drawn keys, each evaluated, every amplitude pair
  the equal superposition \<open>(1 / sqrt 2, 1 / sqrt 2)\<close>.
\<close>

fun draw_members :: "matrix \<Rightarrow> nat \<Rightarrow> nat \<Rightarrow> rng \<Rightarrow> member list \<times> rng" where
  "draw_members m n 0 g = ([], g)"
| "draw_members m n (Suc k) g =
     (let (ks, g1) = draw_keys (n - 2) g;
          (qs, g2) = draw_members m n k g1
      in (\<lparr>amps = replicate (n - 2) (1 / sqrt 2, 1 / sqrt 2), current = evaluate m n ks\<rparr> # qs,
          g2))"

text \<open>
  Modelled from the spec: the population created at the start of the Quantum phase. The text
  leaves open how it is created, and it requires (section 8) that the returned tour is never
  worse than the naive tour in input order. The first member therefore holds the input order,
  the tour \<open>1, ..., n - 2\<close> with its encoded keys, which takes no draw; the other members up
  to the configured size have drawn keys. A population has at least this one member, also
  when the configured size is 0.
\<close>

definition init_population :: "matrix \<Rightarrow> nat \<Rightarrow> nat \<Rightarrow> rng \<Rightarrow> member list \<times> rng" where
  "init_population m n k g =
     (let (qs, g1) = draw_members m n (k - 1) g
      in (\<lparr>amps = replicate (n - 2) (1 / sqrt 2, 1 / sqrt 2),
           current = evaluate m n (encode [1..<n - 1])\<rparr> # qs, g1))"

text \<open>Modelled from the spec: the Quantum phase.\<close>

definition quantum_phase ::
  "config \<Rightarrow> (nat \<Rightarrow> bool) \<Rightarrow> matrix \<Rightarrow> nat \<Rightarrow> rng \<Rightarrow> member phase_state \<times> nat \<times> bool" where
  "quantum_phase cfg signal m n g =
     (let (pop, g1) = init_population m n (pop_size cfg) g;
          st = \<lparr>population = pop,
                leader = elite (current (hd pop)) (map current (tl pop)),
                stall = 0, temp = temperature cfg, gen = g1\<rparr>
      in phase_loop (quantum_iteration cfg m n) (patience cfg) signal (T1 cfg) 1 st)"

subsection \<open>Whale Exploitation Phase (specification, section 4.3)\<close>

text \<open>Modelled from the spec: clipping a coordinate to the key domain \<open>[0, 1]\<close>.\<close>

definition clip :: "real \<Rightarrow> real" where
  "clip x = min 1 (max 0 x)"

text \<open>Modelled from the spec: the index of a randomly chosen member of a population of size \<open>k\<close>.\<close>

definition pick :: "nat \<Rightarrow> real \<Rightarrow> nat" where
  "pick k u = min (k - 1) (nat \<lfloor>u * real k\<rfloor>)"

text \<open>
  Modelled from the spec: the move of one whale \<open>x\<close>, with the leader and the population as they
  stood at the end of the previous iteration: encircling, search or spiral attack, every
  coordinate clipped to \<open>[0, 1]\<close>.
\<close>

definition whale_move ::
  "config \<Rightarrow> real \<Rightarrow> real list \<Rightarrow> real list list \<Rightarrow> real list \<Rightarrow> rng \<Rightarrow> real list \<times> rng" where
  "whale_move cfg a lead pop x g =
     (let (r1, g1) = uniform g;
          (r2, g2) = uniform g1;
          (p, g3) = uniform g2;
          A = 2 * a * r1 - a;
          C = 2 * r2
      in if p < 1 / 2 then
           (if \<bar>A\<bar> < 1 then (map2 (\<lambda>l xi. clip (l - A * \<bar>C * l - xi\<bar>)) lead x, g3)
            else (let (u, g4) = uniform g3;
                      xrand = pop ! pick (length pop) u
                  in (map2 (\<lambda>r xi. clip (r - A * \<bar>C * r - xi\<bar>)) xrand x, g4)))
         else (let (u, g4) = uniform g3;
                   l = 2 * u - 1
               in (map2 (\<lambda>ld xi. clip (\<bar>ld - xi\<bar> * exp (spiral_b cfg * l) * cos (2 * pi * l) + ld))
                     lead x, g4)))"

text \<open>Modelled from the spec: greedy acceptance, the whale is replaced only by a cheaper one.\<close>

definition whale_step ::
  "config \<Rightarrow> matrix \<Rightarrow> nat \<Rightarrow> real \<Rightarrow> candidate \<Rightarrow> candidate list \<Rightarrow> candidate \<Rightarrow> rng \<Rightarrow>
   candidate \<times> rng" where
  "whale_step cfg m n a lead pop x g =
     (let (ks, g1) = whale_move cfg a (keys lead) (map keys pop) (keys x) g
      in (better x (evaluate m n ks), g1))"

text \<open>Modelled from the spec: the move and the acceptance for every whale of a generation.\<close>

fun whale_sweep ::
  "config \<Rightarrow> matrix \<Rightarrow> nat \<Rightarrow> real \<Rightarrow> candidate \<Rightarrow> candidate list \<Rightarrow> candidate list \<Rightarrow> rng \<Rightarrow>
   candidate list \<times> rng" where
  "whale_sweep cfg m n a lead pop [] g = ([], g)"
| "whale_sweep cfg m n a lead pop (x # xs) g =
     (let (x', g1) = whale_step cfg m n a lead pop x g;
          (xs', g2) = whale_sweep cfg m n a lead pop xs g1
      in (x' # xs', g2))"

text \<open>
  Modelled from the spec: iteration \<open>t\<close> of the Whale phase, with \<open>a = 2 * (1 - t / T2)\<close>; the
  leader is recomputed after the whole generation has been evaluated.
\<close>

definition whale_iteration ::
  "config \<Rightarrow> matrix \<Rightarrow> nat \<Rightarrow> nat \<Rightarrow> candidate phase_state \<Rightarrow> candidate phase_state" where
  "whale_iteration cfg m n t st =
     (let a = 2 * (1 - real t / real (T2 cfg));
          (pop, g) = whale_sweep cfg m n a (leader st) (population st) (population st) (gen st);
          best = elite (leader st) pop
      in \<lparr>population = pop, leader = best,
          stall = (if cost best < cost (leader st) then 0 else Suc (stall st)),
          temp = temp st, gen = g\<rparr>)"

text \<open>
  Modelled from the spec: seeding the Whale phase from the Quantum phase: every candidate is
  re-encoded from its tour, which gives the canonical, evenly spaced keys.
\<close>

definition reseed :: "matrix \<Rightarrow> nat \<Rightarrow> candidate \<Rightarrow> candidate" where
  "reseed m n c = evaluate m n (encode (decode (keys c)))"

text \<open>Modelled from the spec: the Whale phase, seeded with the output of the Quantum phase.\<close>

definition whale_phase ::
  "config \<Rightarrow> (nat \<Rightarrow> bool) \<Rightarrow> matrix \<Rightarrow> nat \<Rightarrow> member phase_state \<Rightarrow>
   candidate phase_state \<times> nat \<times> bool" where
  "whale_phase cfg signal m n q =
     (let st = \<lparr>population = map (reseed m n \<circ> current) (population q),
                leader = reseed m n (leader q),
                stall = 0, temp = temp q, gen = gen q\<rparr>
      in phase_loop (whale_iteration cfg m n) (patience cfg) signal (T2 cfg) 1 st)"

subsection \<open>Local Search Refiner (specification, section 4.4)\<close>

text \<open>
  Modelled from the spec: the 2-opt move on the edges \<open>(i, i + 1)\<close> and \<open>(j, j + 1)\<close> of a path,
  \<open>i < j\<close>: the sub-path between them, positions \<open>i + 1\<close> to \<open>j\<close>, is reversed.
\<close>

definition reverse_segment :: "nat \<Rightarrow> nat \<Rightarrow> nat list \<Rightarrow> nat list" where
  "reverse_segment i j p = take (Suc i) p @ rev (take (j - i) (drop (Suc i) p)) @ drop (Suc j) p"

text \<open>
  Modelled from the spec: all pairs of edges of a path of \<open>n\<close> points, in the order of the scan:
  \<open>i\<close> ascending, then \<open>j\<close> ascending.
\<close>

definition moves :: "nat \<Rightarrow> (nat \<times> nat) list" where
  "moves n = concat (map (\<lambda>i. map (\<lambda>j. (i, j)) [Suc i..<n - 1]) [0..<n - 1])"

text \<open>
  Modelled from the spec: one full scan. The choice the text asks to fix is made for the first
  improving move; a move improves when the path after it is strictly cheaper.
\<close>

definition improves :: "matrix \<Rightarrow> nat list \<Rightarrow> nat \<times> nat \<Rightarrow> bool" where
  "improves m p = (\<lambda>(i, j). path_cost m (reverse_segment i j p) < path_cost m p)"

text \<open>Modelled from the spec: the first improving move of a full scan, if there is one.\<close>

definition first_improving :: "matrix \<Rightarrow> nat list \<Rightarrow> (nat \<times> nat) option" where
  "first_improving m p = find (improves m p) (moves (length p))"

text \<open>
  Modelled from the spec: the refiner. Every scan that finds an improving move applies it and
  the scan starts again; the refiner stops when a full scan finds none (the flag is \<open>True\<close>:
  local optimum reached) or when the pass cap is used up (the flag is \<open>False\<close>).
\<close>

fun two_opt :: "nat \<Rightarrow> matrix \<Rightarrow> nat list \<Rightarrow> nat list \<times> bool" where
  "two_opt 0 m p = (p, False)"
| "two_opt (Suc cap) m p =
     (case first_improving m p of
        None \<Rightarrow> (p, True)
      | Some (i, j) \<Rightarrow> two_opt cap m (reverse_segment i j p))"

subsection \<open>Orchestrator (specification, sections 4.5, 5, 6 and 7)\<close>

text \<open>Modelled from the spec: the error taxonomy, of which only one error reaches the caller.\<close>

datatype optimize_error = InvalidInputError

text \<open>Modelled from the spec: the closed enumeration of method tags of section 9.\<close>

datatype method_tag = Hybrid | FallbackGeometric | Trivial | BudgetLimited

text \<open>Modelled from the spec: one row of the per-segment breakdown.\<close>

record segment =
  seg_from :: nat
  seg_to :: nat
  seg_distance_km :: real
  seg_duration_min :: real

text \<open>Modelled from the spec: the OptimizationResult of section 3.\<close>

record optimization_result =
  order :: "nat list"
  total_distance_km :: real
  total_duration_min :: real
  segments :: "segment list"
  method_used :: method_tag
  quantum_iterations :: nat
  whale_iterations :: nat
  compute_time :: real
  degraded :: bool

text \<open>
  Modelled from the spec: what a run takes from outside the optimiser: the answer of
  \<open>RoutingProvider.getMatrix\<close> (\<open>None\<close> when it fails), the deadline or cancellation signal as it
  is found at the check before iteration \<open>t\<close> of either phase, and the wall clock read when the
  run starts and when it ends.
\<close>

datatype phase = Exploring | Exploiting

record environment =
  getMatrix :: "opt_location list \<Rightarrow> raw_matrix option"
  cancelled :: "phase \<Rightarrow> nat \<Rightarrow> bool"
  clock_start :: real
  clock_end :: real

text \<open>
  Modelled from the spec: the geometric fallback, the great-circle distance (haversine formula
  on a sphere of radius 6371 km) between two locations given in degrees; the duration follows
  from the configured speed.
\<close>

definition great_circle_km :: "opt_location \<Rightarrow> opt_location \<Rightarrow> real" where
  "great_circle_km p q =
     (let rad = (\<lambda>deg. deg * pi / 180);
          h = (sin (rad (latitude q - latitude p) / 2))\<^sup>2 +
              cos (rad (latitude p)) * cos (rad (latitude q)) *
              (sin (rad (longitude q - longitude p) / 2))\<^sup>2
      in 2 * 6371 * arcsin (sqrt h))"

text \<open>Modelled from the spec: the geometric fallback matrix over the locations.\<close>

definition geometric_matrix :: "real \<Rightarrow> opt_location list \<Rightarrow> matrix" where
  "geometric_matrix speed locs i j =
     (if i < length locs \<and> j < length locs
      then \<lparr>distance_km = great_circle_km (locs ! i) (locs ! j),
            duration_min = 60 * great_circle_km (locs ! i) (locs ! j) / speed\<rparr>
      else \<lparr>distance_km = 0, duration_min = 0\<rparr>)"

text \<open>Modelled from the spec: the state MatrixReady, the matrix and the degraded flag.\<close>

definition matrix_ready :: "config \<Rightarrow> environment \<Rightarrow> opt_location list \<Rightarrow> matrix \<times> bool" where
  "matrix_ready cfg env locs =
     (case getMatrix env locs of
        Some raw \<Rightarrow> (load_matrix (penalty cfg) raw, False)
      | None \<Rightarrow> (geometric_matrix (fallback_speed_kmh cfg) locs, True))"

text \<open>Modelled from the spec: the per-segment breakdown of a path.\<close>

fun breakdown :: "matrix \<Rightarrow> nat list \<Rightarrow> segment list" where
  "breakdown m (a # b # p) =
     \<lparr>seg_from = a, seg_to = b, seg_distance_km = distance_km (m a b),
      seg_duration_min = duration_min (m a b)\<rparr> # breakdown m (b # p)"
| "breakdown m p = []"

text \<open>Modelled from the spec: the state Done, which assembles the result.\<close>

definition assemble ::
  "environment \<Rightarrow> matrix \<Rightarrow> bool \<Rightarrow> nat list \<Rightarrow> method_tag \<Rightarrow> nat \<Rightarrow> nat \<Rightarrow> optimization_result" where
  "assemble env m deg path tag qi wi =
     \<lparr>order = path, total_distance_km = path_cost m path,
      total_duration_min = path_duration m path, segments = breakdown m path,
      method_used = tag, quantum_iterations = qi, whale_iterations = wi,
      compute_time = clock_end env - clock_start env, degraded = deg\<rparr>"

text \<open>
  Modelled from the spec: the states Exploring, Exploiting and Refining. When the signal ends
  the Quantum phase, the Whale phase is skipped and the best candidate so far goes to the
  refiner. The result is the refined path, whether the refiner reached a local optimum, the
  iteration counts, and whether the signal cut a phase short.
\<close>

definition search ::
  "config \<Rightarrow> environment \<Rightarrow> matrix \<Rightarrow> nat \<Rightarrow> (nat list \<times> bool) \<times> nat \<times> nat \<times> bool" where
  "search cfg env m n =
     (let (q, qi, qcut) = quantum_phase cfg (cancelled env Exploring) m n (seed cfg, 0);
          (best, wi, cut) =
            (if qcut then (leader q, 0, True)
             else (let (w, wi, wcut) = whale_phase cfg (cancelled env Exploiting) m n q
                   in (leader w, wi, wcut)))
      in (two_opt (pass_cap cfg) m (expand n (decode (keys best))), qi, wi, cut))"

text \<open>
  Modelled from the spec: \<open>optimize\<close>. Fewer than 2 locations are rejected. With 0 or 1 interior
  waypoints the identity order is returned at once under the trivial tag. Otherwise the tag is
  \<open>budget_limited\<close> when the signal cut a phase short or the refiner used up its pass cap,
  \<open>fallback_geometric\<close> when the matrix is the geometric one, and \<open>hybrid\<close> in all other runs.
\<close>

definition optimize ::
  "config \<Rightarrow> environment \<Rightarrow> opt_location list \<Rightarrow> optimize_error + optimization_result" where
  "optimize cfg env locs =
     (let n = length locs
      in if n < 2 then Inl InvalidInputError
         else (let (m, deg) = matrix_ready cfg env locs
               in if n - 2 \<le> 1 then Inr (assemble env m deg [0..<n] Trivial 0 0)
                  else (let ((path, optimal), qi, wi, cut) = search cfg env m n;
                            tag = (if cut \<or> \<not> optimal then BudgetLimited
                                   else if deg then FallbackGeometric else Hybrid)
                        in Inr (assemble env m deg path tag qi wi))))"

subsection \<open>Invariants of the phases\<close>

text \<open>
  The predicates below are not part of the optimiser; they say what every candidate that the
  phases hold satisfies. A candidate is well formed for \<open>n\<close> locations when it has one key for
  each interior waypoint and its cached cost is the fitness of the tour it decodes to.
\<close>

definition candidate_ok :: "matrix \<Rightarrow> nat \<Rightarrow> candidate \<Rightarrow> bool" where
  "candidate_ok m n c = (length (keys c) = n - 2 \<and> cost c = fitness m n (decode (keys c)))"

definition member_ok :: "matrix \<Rightarrow> nat \<Rightarrow> member \<Rightarrow> bool" where
  "member_ok m n q = (length (amps q) = n - 2 \<and> candidate_ok m n (current q))"

definition quantum_ok :: "matrix \<Rightarrow> nat \<Rightarrow> member phase_state \<Rightarrow> bool" where
  "quantum_ok m n st =
     (population st \<noteq> [] \<and> (\<forall>q \<in> set (population st). member_ok m n q) \<and>
      candidate_ok m n (leader st))"

definition whale_ok :: "matrix \<Rightarrow> nat \<Rightarrow> candidate phase_state \<Rightarrow> bool" where
  "whale_ok m n st =
     (population st \<noteq> [] \<and> (\<forall>c \<in> set (population st). candidate_ok m n c) \<and>
      candidate_ok m n (leader st))"

text \<open>
  The rearrangements of a path that are strictly cheaper than it: their number bounds the
  moves the refiner can still make.
\<close>

definition cheaper :: "matrix \<Rightarrow> nat list \<Rightarrow> nat list set" where
  "cheaper m p = {q. mset q = mset p \<and> path_cost m q < path_cost m p}"

text \<open>The population the Quantum phase starts from, as \<open>quantum_phase\<close> creates it.\<close>

definition initial_population :: "config \<Rightarrow> matrix \<Rightarrow> nat \<Rightarrow> member list" where
  "initial_population cfg m n = fst (init_population m n (pop_size cfg) (seed cfg, 0))"

subsection \<open>Sample inputs of the optimiser\<close>

text \<open>
  Points on a line: the distance between two indices is their difference, the duration twice
  that.
\<close>

definition line_matrix :: matrix where
  "line_matrix i j = \<lparr>distance_km = \<bar>real i - real j\<bar>, duration_min = 2 * \<bar>real i - real j\<bar>\<rparr>"

text \<open>
  Five points of the plane, \<open>(0,0)\<close>, \<open>(3,3)\<close>, \<open>(0,1)\<close>, \<open>(3,0)\<close> and \<open>(0,3)\<close>, with the
  city-block distance between them as the provider's matrix (the duration is twice the
  distance), and a configuration with two candidates, one Quantum and two Whale iterations.
  The seed gives the twenty-two draws that such a run takes.
\<close>

definition corner_table :: "real list list" where
  "corner_table =
     [[0, 6, 1, 3, 3],
      [6, 0, 5, 3, 3],
      [1, 5, 0, 4, 2],
      [3, 3, 4, 0, 6],
      [3, 3, 2, 6, 0]]"

definition corner_raw :: raw_matrix where
  "corner_raw i j =
     (if i < 5 \<and> j < 5 then (Some (corner_table ! i ! j), Some (2 * (corner_table ! i ! j)))
      else (None, None))"

definition five_locations :: "opt_location list" where
  "five_locations =
     [\<lparr>loc_id = 0, latitude = 0, longitude = 0, label = ''A''\<rparr>,
      \<lparr>loc_id = 1, latitude = 3, longitude = 3, label = ''B''\<rparr>,
      \<lparr>loc_id = 2, latitude = 1, longitude = 0, label = ''C''\<rparr>,
      \<lparr>loc_id = 3, latitude = 0, longitude = 3, label = ''D''\<rparr>,
      \<lparr>loc_id = 4, latitude = 3, longitude = 0, label = ''E''\<rparr>]"

definition sample_draws :: "real list" where
  "sample_draws =
     [9/10, 1/10, 1/2, 7/10, 3/10, 1/2, 7/10, 3/10, 1/2, 2/5, 3/4, 3/4, 1/5, 1/3, 2/3, 1/4,
      1/3, 2/3, 1/4, 1/2, 1/2, 2/5]"

definition brief_config :: config where
  "brief_config =
     \<lparr>pop_size = 2, T1 = 1, T2 = 2, patience = 3, rotation = 1 / 10, temperature = 1,
      cooling = 9 / 10, spiral_b = 1, pass_cap = 50, penalty = 1000000,
      fallback_speed_kmh = 60, seed = (\<lambda>k. sample_draws ! (k mod 22))\<rparr>"

definition corner_env :: environment where
  "corner_env = \<lparr>getMatrix = (\<lambda>_. Some corner_raw), cancelled = (\<lambda>_ _. False),
                 clock_start = 0, clock_end = 1\<rparr>"

definition corner_matrix :: matrix where
  "corner_matrix = load_matrix 1000000 corner_raw"

section \<open>Properties of the front end\<close>

subsection \<open>Auxiliary facts\<close>

lemma find_append_Some: "find P xs = Some x \<Longrightarrow> find P (xs @ ys) = Some x"
  by (induction xs) (auto split: if_splits)

lemma find_append_other: "\<not> P y \<Longrightarrow> find P (xs @ [y]) = find P xs"
  by (induction xs) auto

lemma startsWith_iff: "startsWith s t \<longleftrightarrow> (\<exists>after. s = t @ after)"
  by (induction s t rule: startsWith.induct) auto

lemma includes_str_iff: "includes_str s t \<longleftrightarrow> (\<exists>before after. s = before @ t @ after)"
proof (induction s)
  case Nil
  then show ?case by simp
next
  case (Cons x xs)
  show ?case
  proof
    assume "includes_str (x # xs) t"
    then consider "startsWith (x # xs) t" | "includes_str xs t" by auto
    then show "\<exists>before after. x # xs = before @ t @ after"
    proof cases
      case 1
      then obtain a where "x # xs = t @ a" using startsWith_iff by blast
      then have "x # xs = [] @ t @ a" by simp
      then show ?thesis by blast
    next
      case 2
      then obtain b a where "xs = b @ t @ a" using Cons.IH by blast
      then have "x # xs = (x # b) @ t @ a" by simp
      then show ?thesis by blast
    qed
  next
    assume "\<exists>before after. x # xs = before @ t @ after"
    then obtain b a where eq: "x # xs = b @ t @ a" by blast
    show "includes_str (x # xs) t"
    proof (cases b)
      case Nil
      with eq have "startsWith (x # xs) t" using startsWith_iff by auto
      then show ?thesis by simp
    next
      case (Cons y ys)
      with eq have "xs = ys @ t @ a" by simp
      then have "includes_str xs t" using Cons.IH by blast
      then show ?thesis by simp
    qed
  qed
qed

lemma example_start: "startPoint example_waypoints = Some (with_type chennai ''start'')"
  by (simp add: startPoint_def example_waypoints_def with_type_def)

lemma example_dest: "destination example_waypoints = Some (with_type kochi ''destination'')"
  by (simp add: destination_def example_waypoints_def with_type_def)

lemma example_mid:
  "intermediateWaypoints example_waypoints = [with_type salem ''waypoint'', with_type madurai ''waypoint'']"
  by (simp add: intermediateWaypoints_def example_waypoints_def with_type_def)

lemma example_ordered: "orderedWaypoints example_waypoints = Inr [chennai, salem, madurai, kochi]"
  by (simp add: orderedWaypoints_def example_start example_dest example_mid)
     (simp add: with_type_def payload_def chennai_def salem_def madurai_def kochi_def)

lemma example_has_start: "\<exists>w \<in> set example_waypoints. wtype w = ''start''"
  by (simp add: example_waypoints_def with_type_def)

lemma example_has_dest: "\<exists>w \<in> set example_waypoints. wtype w = ''destination''"
  by (simp add: example_waypoints_def with_type_def)

subsection \<open>Submitting a route (handleOptimize)\<close>

text \<open>
  Claim C6, as amended. \<open>handleOptimize\<close> rejects the request exactly when the waypoint list
  has no \<open>'start'\<close> entry or no \<open>'destination'\<close> entry. Every list of fewer than 2 entries is
  such a list, but so is a longer list that lacks one of the two end points. A rejection only
  sets the error message, whatever the backend would answer. With both end points present the
  request is sent: the list has two entries more than there are intermediate waypoints (so two
  entries when there are none), and when the backend answers with success the error stays
  \<open>null\<close>.
\<close>

theorem handleOptimize_rejects_iff:
  "(orderedWaypoints ws = Inl InvalidInput \<longleftrightarrow>
      \<not> (\<exists>w \<in> set ws. wtype w = ''start'') \<or> \<not> (\<exists>w \<in> set ws. wtype w = ''destination'')) \<and>
   (length ws < 2 \<longrightarrow> orderedWaypoints ws = Inl InvalidInput) \<and>
   (orderedWaypoints (waypoints st) = Inl InvalidInput \<longrightarrow>
      handleOptimize backend st = st\<lparr>error := Some ''Please add both start point and destination''\<rparr>) \<and>
   ((\<exists>w \<in> set (waypoints st). wtype w = ''start'') \<and> (\<exists>w \<in> set (waypoints st). wtype w = ''destination'') \<longrightarrow>
      (\<exists>sent. orderedWaypoints (waypoints st) = Inr sent \<and>
         length sent = 2 + length (intermediateWaypoints (waypoints st)) \<and>
         (\<forall>d. backend sent = Resolved True d None \<longrightarrow>
            handleOptimize backend st = st\<lparr>optimizedRoute := d, isOptimizing := False, error := None\<rparr>)))"
proof -
  have none_s: "startPoint xs = None \<longleftrightarrow> \<not> (\<exists>w \<in> set xs. wtype w = ''start'')" for xs
    by (auto simp: startPoint_def find_None_iff)
  have none_d: "destination xs = None \<longleftrightarrow> \<not> (\<exists>w \<in> set xs. wtype w = ''destination'')" for xs
    by (auto simp: destination_def find_None_iff)
  have rej: "orderedWaypoints xs = Inl InvalidInput \<longleftrightarrow> startPoint xs = None \<or> destination xs = None" for xs
    by (auto simp: orderedWaypoints_def split: option.splits)
  have p1: "orderedWaypoints ws = Inl InvalidInput \<longleftrightarrow>
      \<not> (\<exists>w \<in> set ws. wtype w = ''start'') \<or> \<not> (\<exists>w \<in> set ws. wtype w = ''destination'')"
    using rej none_s none_d by simp
  have gen: "orderedWaypoints xs = Inl InvalidInput \<longleftrightarrow>
      \<not> (\<exists>w \<in> set xs. wtype w = ''start'') \<or> \<not> (\<exists>w \<in> set xs. wtype w = ''destination'')" for xs
    using rej none_s none_d by simp
  have p0: "length ws < 2 \<longrightarrow> orderedWaypoints ws = Inl InvalidInput"
  proof
    assume "length ws < 2"
    then consider "ws = []" | w where "ws = [w]"
      by (cases ws; cases "tl ws") auto
    then show "orderedWaypoints ws = Inl InvalidInput"
    proof cases
      case 1
      then show ?thesis by (simp add: gen)
    next
      case 2
      have "wtype w \<noteq> ''start'' \<or> wtype w \<noteq> ''destination''" by auto
      with 2 show ?thesis by (auto simp: gen)
    qed
  qed
  have p2: "orderedWaypoints (waypoints st) = Inl InvalidInput \<longrightarrow>
      handleOptimize backend st = st\<lparr>error := Some ''Please add both start point and destination''\<rparr>"
    by (simp add: handleOptimize_def)
  have p3: "(\<exists>w \<in> set (waypoints st). wtype w = ''start'') \<and> (\<exists>w \<in> set (waypoints st). wtype w = ''destination'') \<longrightarrow>
      (\<exists>sent. orderedWaypoints (waypoints st) = Inr sent \<and>
         length sent = 2 + length (intermediateWaypoints (waypoints st)) \<and>
         (\<forall>d. backend sent = Resolved True d None \<longrightarrow>
            handleOptimize backend st = st\<lparr>optimizedRoute := d, isOptimizing := False, error := None\<rparr>))"
  proof
    assume "(\<exists>w \<in> set (waypoints st). wtype w = ''start'') \<and> (\<exists>w \<in> set (waypoints st). wtype w = ''destination'')"
    then have "startPoint (waypoints st) \<noteq> None" "destination (waypoints st) \<noteq> None"
      using none_s none_d by auto
    then obtain s d where sd: "startPoint (waypoints st) = Some s" "destination (waypoints st) = Some d"
      by auto
    let ?sent = "map payload ([s] @ intermediateWaypoints (waypoints st) @ [d])"
    have o: "orderedWaypoints (waypoints st) = Inr ?sent"
      using sd by (simp add: orderedWaypoints_def)
    have "\<forall>r. backend ?sent = Resolved True r None \<longrightarrow>
            handleOptimize backend st = st\<lparr>optimizedRoute := r, isOptimizing := False, error := None\<rparr>"
      using o by (simp add: handleOptimize_def)
    with o show "\<exists>sent. orderedWaypoints (waypoints st) = Inr sent \<and>
         length sent = 2 + length (intermediateWaypoints (waypoints st)) \<and>
         (\<forall>d. backend sent = Resolved True d None \<longrightarrow>
            handleOptimize backend st = st\<lparr>optimizedRoute := d, isOptimizing := False, error := None\<rparr>)"
      by simp
  qed
  show ?thesis by (rule conjI [OF p1 conjI [OF p0 conjI [OF p2 p3]]])
qed

theorem handleOptimize_rejects_iff_witness:
  "orderedWaypoints [with_type chennai ''start'', with_type kochi ''destination''] =
     Inr [chennai, kochi] \<and>
   orderedWaypoints [with_type salem ''waypoint'', with_type madurai ''waypoint''] = Inl InvalidInput \<and>
   orderedWaypoints [with_type chennai ''start'', with_type madurai ''waypoint''] = Inl InvalidInput \<and>
   length [with_type chennai ''start''] < 2 \<and>
   orderedWaypoints [with_type chennai ''start''] = Inl InvalidInput \<and>
   (\<exists>sent. orderedWaypoints (waypoints example_state) = Inr sent \<and> length sent = 4 \<and>
      handleOptimize (\<lambda>_. Resolved True (Some [0, 2, 1, 3]) None) example_state =
        example_state\<lparr>optimizedRoute := Some [0, 2, 1, 3], isOptimizing := False, error := None\<rparr>)"
proof -
  have t: "wtype (with_type l t) = t" "payload (with_type l t) = l" for l t
    by (simp_all add: with_type_def payload_def)
  have w: "waypoints example_state = example_waypoints"
    by (simp add: example_state_def)
  have i: "length (intermediateWaypoints example_waypoints) = 2"
    by (simp add: intermediateWaypoints_def example_waypoints_def t)
  have 1: "orderedWaypoints [with_type chennai ''start'', with_type kochi ''destination''] =
     Inr [chennai, kochi]"
    by (simp add: orderedWaypoints_def startPoint_def destination_def intermediateWaypoints_def t)
  have 2: "orderedWaypoints [with_type salem ''waypoint'', with_type madurai ''waypoint''] = Inl InvalidInput"
    using handleOptimize_rejects_iff [of "[with_type salem ''waypoint'', with_type madurai ''waypoint'']" example_state undefined]
    by (simp add: t)
  have 3: "orderedWaypoints [with_type chennai ''start'', with_type madurai ''waypoint''] = Inl InvalidInput"
    using handleOptimize_rejects_iff [of "[with_type chennai ''start'', with_type madurai ''waypoint'']" example_state undefined]
    by (simp add: t)
  have 4: "\<exists>sent. orderedWaypoints (waypoints example_state) = Inr sent \<and> length sent = 4 \<and>
      handleOptimize (\<lambda>_. Resolved True (Some [0, 2, 1, 3]) None) example_state =
        example_state\<lparr>optimizedRoute := Some [0, 2, 1, 3], isOptimizing := False, error := None\<rparr>"
    using handleOptimize_rejects_iff [of "[]" example_state "\<lambda>_. Resolved True (Some [0, 2, 1, 3]) None"]
      example_has_start example_has_dest
    by (simp add: w i)
  have 5: "orderedWaypoints [with_type chennai ''start''] = Inl InvalidInput"
    using handleOptimize_rejects_iff [of "[with_type chennai ''start'']" example_state undefined]
    by simp
  show ?thesis using 1 2 3 4 5 by simp
qed

text \<open>
  The claim as written fails in its "only if" part: a list of two locations, a start point and
  one stop, is not a list of fewer than 2 locations, and the request is rejected all the same,
  although the backend would have answered it.
\<close>

theorem two_locations_rejected_counterexample:
  "length start_and_stop = 2 \<and>
   orderedWaypoints start_and_stop = Inl InvalidInput \<and>
   handleOptimize willing_backend (initial_state\<lparr>waypoints := start_and_stop\<rparr>) =
     initial_state\<lparr>waypoints := start_and_stop,
                    error := Some ''Please add both start point and destination''\<rparr>"
proof -
  have "orderedWaypoints start_and_stop = Inl InvalidInput"
    by (simp add: orderedWaypoints_def startPoint_def destination_def start_and_stop_def
        with_type_def)
  then show ?thesis
    by (simp add: handleOptimize_def) (simp add: start_and_stop_def)
qed

text \<open>
  Claim C7. When the waypoint list has a \<open>'start'\<close> entry and a \<open>'destination'\<close> entry, the list
  sent to the optimiser is a start-typed entry, then the \<open>'waypoint'\<close> entries in the order in
  which they stand in the list (the order of insertion), then a destination-typed entry.
\<close>

theorem orderedWaypoints_layout:
  assumes "\<exists>w \<in> set ws. wtype w = ''start''" and "\<exists>w \<in> set ws. wtype w = ''destination''"
  shows "\<exists>s d. s \<in> set ws \<and> wtype s = ''start'' \<and> d \<in> set ws \<and> wtype d = ''destination'' \<and>
           orderedWaypoints ws =
             Inr (payload s # map payload (filter (\<lambda>w. wtype w = ''waypoint'') ws) @ [payload d]) \<and>
           subseq (filter (\<lambda>w. wtype w = ''waypoint'') ws) ws"
proof -
  from assms have "startPoint ws \<noteq> None" "destination ws \<noteq> None"
    by (auto simp: startPoint_def destination_def find_None_iff)
  then obtain s d where sd: "startPoint ws = Some s" "destination ws = Some d"
    by auto
  then have "s \<in> set ws \<and> wtype s = ''start''" "d \<in> set ws \<and> wtype d = ''destination''"
    by (auto simp: startPoint_def destination_def find_Some_iff)
  moreover have "orderedWaypoints ws =
             Inr (payload s # map payload (filter (\<lambda>w. wtype w = ''waypoint'') ws) @ [payload d])"
    using sd by (simp add: orderedWaypoints_def intermediateWaypoints_def)
  ultimately show ?thesis by auto
qed

theorem orderedWaypoints_layout_witness:
  "(\<exists>w \<in> set example_waypoints. wtype w = ''start'') \<and>
   (\<exists>w \<in> set example_waypoints. wtype w = ''destination'') \<and>
   (\<exists>s d. s \<in> set example_waypoints \<and> wtype s = ''start'' \<and> d \<in> set example_waypoints \<and> wtype d = ''destination'' \<and>
      orderedWaypoints example_waypoints =
        Inr (payload s # map payload (filter (\<lambda>w. wtype w = ''waypoint'') example_waypoints) @ [payload d])) \<and>
   orderedWaypoints example_waypoints = Inr [chennai, salem, madurai, kochi]"
proof -
  have t: "wtype (with_type l t) = t" "payload (with_type l t) = l" for l t
    by (simp_all add: with_type_def payload_def)
  note a = example_has_start and b = example_has_dest
  note c = example_ordered
  from orderedWaypoints_layout [OF a b]
  have "\<exists>s d. s \<in> set example_waypoints \<and> wtype s = ''start'' \<and> d \<in> set example_waypoints \<and> wtype d = ''destination'' \<and>
      orderedWaypoints example_waypoints =
        Inr (payload s # map payload (filter (\<lambda>w. wtype w = ''waypoint'') example_waypoints) @ [payload d])"
    by blast
  with a b c show ?thesis by simp
qed

text \<open>
  Claim C8. When the request is not sent, or the backend answers with \<open>success == false\<close>, or
  the request throws, \<open>handleOptimize\<close> leaves \<open>optimizedRoute\<close> as it was and sets \<open>error\<close> to
  a non-empty message. \<open>optimizedRoute\<close> changes only when the backend answers with
  \<open>success == true\<close>, and then it becomes the answer's data.
\<close>

theorem handleOptimize_failure_keeps_route:
  "(orderedWaypoints (waypoints st) = Inl InvalidInput \<or>
    (\<exists>sent. orderedWaypoints (waypoints st) = Inr sent \<and>
       ((\<exists>d e. backend sent = Resolved False d e) \<or> (\<exists>e. backend sent = Rejected e)))
    \<longrightarrow> optimizedRoute (handleOptimize backend st) = optimizedRoute st \<and>
        (\<exists>msg. error (handleOptimize backend st) = Some msg \<and> msg \<noteq> [])) \<and>
   (optimizedRoute (handleOptimize backend st) \<noteq> optimizedRoute st \<longrightarrow>
      (\<exists>sent d e. orderedWaypoints (waypoints st) = Inr sent \<and> backend sent = Resolved True d e \<and>
         optimizedRoute (handleOptimize backend st) = d))"
proof -
  have ne: "or_else e d \<noteq> []" if "d \<noteq> []" for e d
    using that by (simp add: or_else_def split: option.splits)
  show ?thesis
    by (cases "orderedWaypoints (waypoints st)"; cases "backend (projr (orderedWaypoints (waypoints st)))")
       (auto simp: handleOptimize_def Let_def ne split: if_splits)
qed

theorem handleOptimize_failure_keeps_route_witness:
  "optimizedRoute (handleOptimize (\<lambda>_. Resolved False None None) example_state) = Some [0, 1, 2, 3] \<and>
   error (handleOptimize (\<lambda>_. Resolved False None None) example_state) = Some ''Optimization failed'' \<and>
   optimizedRoute (handleOptimize (\<lambda>_. Rejected (Some ''timeout'')) example_state) = Some [0, 1, 2, 3] \<and>
   error (handleOptimize (\<lambda>_. Rejected (Some ''timeout'')) example_state) = Some ''timeout'' \<and>
   optimizedRoute (handleOptimize (\<lambda>_. Resolved True (Some [0, 2, 1, 3]) None) example_state) = Some [0, 2, 1, 3]"
proof -
  have t: "wtype (with_type l t) = t" "payload (with_type l t) = l" for l t
    by (simp_all add: with_type_def payload_def)
  have o: "orderedWaypoints (waypoints example_state) = Inr [chennai, salem, madurai, kochi]"
    using example_ordered by (simp add: example_state_def)
  have r: "optimizedRoute example_state = Some [0, 1, 2, 3]"
    by (simp add: example_state_def)
  have 1: "optimizedRoute (handleOptimize (\<lambda>_. Resolved False None None) example_state) = Some [0, 1, 2, 3]"
    using handleOptimize_failure_keeps_route [of example_state "\<lambda>_. Resolved False None None"] o r
    by simp
  have 2: "optimizedRoute (handleOptimize (\<lambda>_. Rejected (Some ''timeout'')) example_state) = Some [0, 1, 2, 3]"
    using handleOptimize_failure_keeps_route [of example_state "\<lambda>_. Rejected (Some ''timeout'')"] o r
    by simp
  have 3: "error (handleOptimize (\<lambda>_. Resolved False None None) example_state) = Some ''Optimization failed''"
       "error (handleOptimize (\<lambda>_. Rejected (Some ''timeout'')) example_state) = Some ''timeout''"
       "optimizedRoute (handleOptimize (\<lambda>_. Resolved True (Some [0, 2, 1, 3]) None) example_state) = Some [0, 2, 1, 3]"
    by (simp_all add: handleOptimize_def o or_else_def)
  show ?thesis using 1 2 3 by simp
qed

subsection \<open>Choosing the end points (WaypointManager)\<close>

text \<open>
  Claim C9. When the list already has a \<open>'start'\<close> entry, \<open>handleStartSelect\<close> appends one more
  \<open>'start'\<close> entry and removes nothing; the start point that is displayed and submitted (the
  first \<open>'start'\<close> entry) is still the earlier one, so the list sent to the optimiser does not
  change. \<open>handleDestSelect\<close> does the same with \<open>'destination'\<close> entries.
\<close>

theorem second_start_is_appended:
  "(startPoint (waypoints s) = Some w \<longrightarrow>
      (let s' = fst (handleStartSelect l (s, m)) in
         waypoints s' = waypoints s @ [with_type l ''start''] \<and>
         wtype (last (waypoints s')) = ''start'' \<and>
         startPoint (waypoints s') = Some w \<and>
         orderedWaypoints (waypoints s') = orderedWaypoints (waypoints s))) \<and>
   (destination (waypoints s) = Some w \<longrightarrow>
      (let s' = fst (handleDestSelect l (s, m)) in
         waypoints s' = waypoints s @ [with_type l ''destination''] \<and>
         wtype (last (waypoints s')) = ''destination'' \<and>
         destination (waypoints s') = Some w \<and>
         orderedWaypoints (waypoints s') = orderedWaypoints (waypoints s)))"
proof -
  have ty: "wtype (with_type l t) = t" for t
    by (simp add: with_type_def)
  have a: "startPoint (xs @ [with_type l ''start'']) = Some w" if "startPoint xs = Some w" for xs
    using that by (simp add: startPoint_def find_append_Some)
  have b: "destination (xs @ [with_type l ''destination'']) = Some w" if "destination xs = Some w" for xs
    using that by (simp add: destination_def find_append_Some)
  have c: "destination (xs @ [with_type l ''start'']) = destination xs" for xs
    by (simp add: destination_def find_append_other ty)
  have d: "startPoint (xs @ [with_type l ''destination'']) = startPoint xs" for xs
    by (simp add: startPoint_def find_append_other ty)
  have e: "intermediateWaypoints (xs @ [with_type l ''start'']) = intermediateWaypoints xs"
          "intermediateWaypoints (xs @ [with_type l ''destination'']) = intermediateWaypoints xs" for xs
    by (simp_all add: intermediateWaypoints_def ty)
  have f: "orderedWaypoints (xs @ [with_type l ''start'']) = orderedWaypoints xs"
    if "startPoint xs = Some w" for xs
    using a [OF that] that by (simp add: orderedWaypoints_def c e split: option.splits)
  have g: "orderedWaypoints (xs @ [with_type l ''destination'']) = orderedWaypoints xs"
    if "destination xs = Some w" for xs
    using b [OF that] that by (simp add: orderedWaypoints_def d e split: option.splits)
  show ?thesis
    by (simp add: handleStartSelect_def handleDestSelect_def handleAddWaypoint_def
        a b f g ty Let_def)
qed

theorem second_start_is_appended_witness:
  "startPoint (waypoints example_state) = Some (with_type chennai ''start'') \<and>
   destination (waypoints example_state) = Some (with_type kochi ''destination'') \<and>
   waypoints (fst (handleStartSelect salem (example_state, no_search))) =
     example_waypoints @ [with_type salem ''start''] \<and>
   startPoint (waypoints (fst (handleStartSelect salem (example_state, no_search)))) =
     Some (with_type chennai ''start'') \<and>
   waypoints (fst (handleDestSelect salem (example_state, no_search))) =
     example_waypoints @ [with_type salem ''destination''] \<and>
   destination (waypoints (fst (handleDestSelect salem (example_state, no_search)))) =
     Some (with_type kochi ''destination'')"
proof -
  have w: "waypoints example_state = example_waypoints"
    by (simp add: example_state_def)
  have s: "startPoint (waypoints example_state) = Some (with_type chennai ''start'')"
    using example_start by (simp add: w)
  have d: "destination (waypoints example_state) = Some (with_type kochi ''destination'')"
    using example_dest by (simp add: w)
  note a = second_start_is_appended
    [of example_state "with_type chennai ''start''" salem no_search, THEN conjunct1, THEN mp, OF s]
  note b = second_start_is_appended
    [of example_state "with_type kochi ''destination''" salem no_search, THEN conjunct2, THEN mp, OF d]
  show ?thesis
    using a [unfolded Let_def w] b [unfolded Let_def w] s [unfolded w] d [unfolded w]
    unfolding w by (elim conjE) (intro conjI, assumption+)
qed

subsection \<open>City search (SearchBar)\<close>

lemma capital_iff:
  "capital u \<longleftrightarrow> (65 \<le> u \<and> u \<le> 90) \<or> (192 \<le> u \<and> u \<le> 214) \<or> (216 \<le> u \<and> u \<le> 222)"
  by (simp add: capital_def)

text \<open>\<open>toLowerCase\<close> identifies exactly the code units that are the same ignoring case.\<close>

lemma lower_unit_same: "lower_unit a = lower_unit b \<longleftrightarrow> same_ignoring_case a b"
  unfolding lower_unit_def same_ignoring_case_def capital_iff by arith

lemma lower_unit_iff: "lower_unit a = e \<longleftrightarrow> same_ignoring_case a e \<and> \<not> capital e"
  unfolding lower_unit_def same_ignoring_case_def capital_iff by arith

lemma map_lower_unit_same:
  "map lower_unit part = map lower_unit term \<longleftrightarrow> list_all2 same_ignoring_case part term"
proof (induction part arbitrary: "term")
  case Nil
  show ?case by auto
next
  case (Cons a part)
  show ?case
  proof (cases "term")
    case Nil
    then show ?thesis by simp
  next
    case (Cons b bs)
    with Cons.IH [of bs] lower_unit_same [of a b] show ?thesis by auto
  qed
qed

lemma map_lower_unit_iff:
  "map lower_unit part = e \<longleftrightarrow>
     list_all2 same_ignoring_case part e \<and> list_all (\<lambda>u. \<not> capital u) e"
proof (induction part arbitrary: e)
  case Nil
  show ?case by auto
next
  case (Cons a part)
  show ?case
  proof (cases e)
    case Nil
    then show ?thesis by simp
  next
    case (Cons b bs)
    have "lower_unit a = b \<longleftrightarrow> same_ignoring_case a b \<and> \<not> capital b"
      by (rule lower_unit_iff)
    moreover have "map lower_unit part = bs \<longleftrightarrow>
        list_all2 same_ignoring_case part bs \<and> list_all (\<lambda>u. \<not> capital u) bs"
      by (rule Cons.IH)
    ultimately show ?thesis using Cons by auto
  qed
qed

lemma includes_map:
  "includes_str (map f text) e \<longleftrightarrow>
     (\<exists>before part after. text = before @ part @ after \<and> map f part = e)"
proof
  assume "includes_str (map f text) e"
  then obtain b a where "map f text = b @ (e @ a)"
    using includes_str_iff by blast
  then have "\<exists>us vs. text = us @ vs \<and> b = map f us \<and> e @ a = map f vs"
    by (simp only: map_eq_append_conv)
  then obtain before rest where 1: "text = before @ rest" and 2: "e @ a = map f rest"
    by (elim exE conjE)
  from 2 have "\<exists>us vs. rest = us @ vs \<and> e = map f us \<and> a = map f vs"
    by (simp only: append_eq_map_conv)
  then obtain part after where 3: "rest = part @ after" and 4: "e = map f part"
    by (elim exE conjE)
  from 1 3 have "text = before @ part @ after" by simp
  with 4 show "\<exists>before part after. text = before @ part @ after \<and> map f part = e"
    by (intro exI conjI) simp_all
next
  assume "\<exists>before part after. text = before @ part @ after \<and> map f part = e"
  then obtain before part after where "text = before @ part @ after" and "map f part = e"
    by (elim exE conjE)
  then have "map f text = map f before @ e @ map f after" by simp
  then show "includes_str (map f text) e"
    unfolding includes_str_iff by (intro exI)
qed

lemma latin1_units: "latin1 (units s)"
  by (simp add: latin1_def units_def list_all_iff)

lemma latin1_iff: "latin1 s \<longleftrightarrow> list_all (\<lambda>u. u \<le> 255) s"
proof -
  have "u < 256 \<longleftrightarrow> u \<le> 255" for u :: nat by arith
  then show ?thesis by (simp add: latin1_def)
qed

lemma lowered_text_includes:
  assumes "latin1 text"
  shows "includes_str (toLowerCase unicode text) (toLowerCase unicode t) \<longleftrightarrow>
     contains_ignoring_case unicode text t"
proof -
  have code: "toLowerCase unicode text = map lower_unit text"
    using assms by (simp add: toLowerCase_def)
  have spec: "contains_ignoring_case unicode text t =
      (if latin1 t then occurs_ignoring_case text t
       else list_all (\<lambda>u. \<not> capital u) (unicode t) \<and> occurs_ignoring_case text (unicode t))"
    by (simp only: contains_ignoring_case_def latin1_iff)
  show ?thesis
  proof (cases "latin1 t")
    case True
    then have "toLowerCase unicode t = map lower_unit t" by (simp add: toLowerCase_def)
    with True show ?thesis
      by (simp add: code spec occurs_ignoring_case_def includes_map map_lower_unit_same)
  next
    case False
    then have "toLowerCase unicode t = unicode t" by (simp add: toLowerCase_def)
    with False show ?thesis
      by (auto simp: code spec occurs_ignoring_case_def includes_map map_lower_unit_iff)
  qed
qed

text \<open>Every name and state of the table is ASCII text.\<close>

lemma table_latin1:
  "c \<in> set INDIAN_CITIES \<Longrightarrow> latin1 (city_name c) \<and> latin1 (state c)"
  by (auto simp: INDIAN_CITIES_def latin1_units)

lemma city_matches_iff:
  assumes "c \<in> set INDIAN_CITIES"
  shows "city_matches unicode t c \<longleftrightarrow>
     contains_ignoring_case unicode (city_name c) t \<or>
     contains_ignoring_case unicode (state c) t"
  using table_latin1 [OF assms] by (simp add: city_matches_def lowered_text_includes)

text \<open>
  What \<open>trim\<close> leaves: the term is white space, then the trimmed term, then white space, and
  the trimmed term is empty or begins and ends with a code unit that is not white space.
\<close>

lemma trim_strips:
  "\<exists>lead trail. t = lead @ trim t @ trail \<and> list_all is_space lead \<and> list_all is_space trail \<and>
     (trim t = [] \<or> (\<not> is_space (hd (trim t)) \<and> \<not> is_space (last (trim t))))"
proof -
  define d where "d = dropWhile is_space t"
  define r where "r = rev d"
  have t: "t = takeWhile is_space t @ d"
    by (simp add: d_def)
  have tr: "trim t = rev (dropWhile is_space r)"
    by (simp add: trim_def r_def d_def)
  have "rev (takeWhile is_space r @ dropWhile is_space r) = rev r"
    by (simp only: takeWhile_dropWhile_id)
  then have "rev (dropWhile is_space r) @ rev (takeWhile is_space r) = d"
    by (simp only: rev_append r_def rev_rev_ident)
  then have d: "d = trim t @ rev (takeWhile is_space r)"
    by (simp only: tr)
  have a: "list_all is_space (takeWhile is_space t)" "list_all is_space (rev (takeWhile is_space r))"
    by (auto simp: list_all_iff dest: set_takeWhileD)
  have e: "\<not> is_space (hd (trim t)) \<and> \<not> is_space (last (trim t))" if ne: "trim t \<noteq> []"
  proof -
    from ne have n: "dropWhile is_space r \<noteq> []"
      by (simp add: tr)
    then have "\<not> is_space (hd (dropWhile is_space r))" by (rule hd_dropWhile)
    then have 1: "\<not> is_space (last (trim t))"
      using n by (simp add: tr last_rev)
    from d ne have "d \<noteq> []" by auto
    then have "\<not> is_space (hd d)" unfolding d_def by (rule hd_dropWhile)
    moreover from d ne have "hd d = hd (trim t)" by (metis hd_append2)
    ultimately show ?thesis using 1 by simp
  qed
  from t d have "t = takeWhile is_space t @ trim t @ rev (takeWhile is_space r)" by simp
  with a e show ?thesis by blast
qed

text \<open>The sample terms: their trimmed lengths, their lower-case forms, and the rows found.\<close>

lemma sample_trimmed:
  "length (trim term_tamil) = 5" "length (trim term_spaced) = 1"
  "length (trim term_nbsp) = 1" "length (trim term_kelvin) = 5"
  by (simp_all add: trim_def is_space_def term_tamil_def term_spaced_def term_nbsp_def
      term_kelvin_def units_def)

lemma sample_lowered:
  "toLowerCase sample_unicode term_tamil = [116, 97, 109, 105, 108]"
  "toLowerCase sample_unicode term_kelvin = [107, 111, 99, 104, 105]"
  by (simp_all add: toLowerCase_def latin1_def term_tamil_def term_kelvin_def units_def
      lower_unit_def sample_unicode_def)

lemma sample_matches:
  assumes "latin1 (city_name c)" and "latin1 (state c)"
  shows
    "city_matches sample_unicode term_tamil c \<longleftrightarrow>
       includes_str (map lower_unit (city_name c)) [116, 97, 109, 105, 108] \<or>
       includes_str (map lower_unit (state c)) [116, 97, 109, 105, 108]"
    "city_matches sample_unicode term_kelvin c \<longleftrightarrow>
       includes_str (map lower_unit (city_name c)) [107, 111, 99, 104, 105] \<or>
       includes_str (map lower_unit (state c)) [107, 111, 99, 104, 105]"
proof -
  from assms have "toLowerCase sample_unicode (city_name c) = map lower_unit (city_name c)"
    "toLowerCase sample_unicode (state c) = map lower_unit (state c)"
    by (simp_all add: toLowerCase_def)
  then show
    "city_matches sample_unicode term_tamil c \<longleftrightarrow>
       includes_str (map lower_unit (city_name c)) [116, 97, 109, 105, 108] \<or>
       includes_str (map lower_unit (state c)) [116, 97, 109, 105, 108]"
    "city_matches sample_unicode term_kelvin c \<longleftrightarrow>
       includes_str (map lower_unit (city_name c)) [107, 111, 99, 104, 105] \<or>
       includes_str (map lower_unit (state c)) [107, 111, 99, 104, 105]"
    by (simp_all add: city_matches_def sample_lowered)
qed

lemma tamil_rows:
  "map city_name (filter (city_matches sample_unicode term_tamil) INDIAN_CITIES) =
     map units
       [''Chennai'', ''Coimbatore'', ''Madurai'', ''Tiruchirappalli'', ''Salem'', ''Tirunelveli'',
        ''Erode'', ''Vellore'', ''Thoothukudi'', ''Dindigul'', ''Thanjavur'', ''Ranipet'',
        ''Sivakasi'', ''Karur'', ''Kanchipuram'', ''Tiruppur'', ''Nagercoil'', ''Cuddalore'',
        ''Kumbakonam'']"
  by (simp add: sample_matches INDIAN_CITIES_def units_def lower_unit_def latin1_def)

lemma kelvin_rows:
  "map city_name (filter (city_matches sample_unicode term_kelvin) INDIAN_CITIES) =
     map units [''Kochi'']"
  by (simp add: sample_matches INDIAN_CITIES_def units_def lower_unit_def latin1_def)

text \<open>A search that compared the spelling as typed would find no row for \<open>tAMil\<close>.\<close>

lemma tamil_as_typed:
  "filter (\<lambda>c. includes_str (city_name c) term_tamil \<or> includes_str (state c) term_tamil)
     INDIAN_CITIES = []"
  by (simp add: INDIAN_CITIES_def units_def term_tamil_def)

text \<open>
  Claim C10. A search term whose trimmed length is below 2 shows no result. For a term whose
  trimmed length is at least 2, the results shown are the cities of the table whose name or
  state contains the term ignoring case, in the order of the table and cut off after 8 entries.
  The term that is matched is the term as typed, not the trimmed one. Containing a term
  ignoring case is \<open>contains_ignoring_case\<close>, which is written without the functions of the
  code; for a term with a code unit beyond Latin-1 it refers to the Unicode conversion of the
  engine, the parameter \<open>unicode\<close>.
\<close>

theorem search_results:
  "(length (trim t) < 2 \<longrightarrow> shown_results (onChange unicode t s) = []) \<and>
   (2 \<le> length (trim t) \<longrightarrow>
      shown_results (onChange unicode t s) =
        take 8 (filter (\<lambda>c. contains_ignoring_case unicode (city_name c) t \<or>
                              contains_ignoring_case unicode (state c) t) INDIAN_CITIES))"
proof -
  have "filter (city_matches unicode t) INDIAN_CITIES =
        filter (\<lambda>c. contains_ignoring_case unicode (city_name c) t \<or>
                     contains_ignoring_case unicode (state c) t) INDIAN_CITIES"
    by (rule filter_cong) (simp_all add: city_matches_iff)
  then show ?thesis
    by (simp add: shown_results_def onChange_def search_effect_def)
qed

theorem search_results_witness:
  "length (trim term_spaced) < 2 \<and>
   shown_results (onChange sample_unicode term_spaced empty_search) = [] \<and>
   length (trim term_nbsp) < 2 \<and>
   shown_results (onChange sample_unicode term_nbsp empty_search) = [] \<and>
   2 \<le> length (trim term_tamil) \<and>
   shown_results (onChange sample_unicode term_tamil empty_search) =
     take 8 (filter (\<lambda>c. contains_ignoring_case sample_unicode (city_name c) term_tamil \<or>
                           contains_ignoring_case sample_unicode (state c) term_tamil)
               INDIAN_CITIES) \<and>
   map city_name (shown_results (onChange sample_unicode term_tamil empty_search)) =
     map units
       [''Chennai'', ''Coimbatore'', ''Madurai'', ''Tiruchirappalli'', ''Salem'', ''Tirunelveli'',
        ''Erode'', ''Vellore''] \<and>
   2 \<le> length (trim term_kelvin) \<and>
   map city_name (shown_results (onChange sample_unicode term_kelvin empty_search)) = map units [''Kochi'']"
proof -
  note a = search_results [of term_spaced sample_unicode empty_search]
  note b = search_results [of term_nbsp sample_unicode empty_search]
  note c = search_results [of term_tamil sample_unicode empty_search]
  note d = search_results [of term_kelvin sample_unicode empty_search]
  have 1: "shown_results (onChange sample_unicode term_spaced empty_search) = []"
    using a by (simp add: sample_trimmed)
  have 2: "shown_results (onChange sample_unicode term_nbsp empty_search) = []"
    using b by (simp add: sample_trimmed)
  have 3: "shown_results (onChange sample_unicode term_tamil empty_search) =
     take 8 (filter (\<lambda>c. contains_ignoring_case sample_unicode (city_name c) term_tamil \<or>
                           contains_ignoring_case sample_unicode (state c) term_tamil)
               INDIAN_CITIES)"
    using c by (simp add: sample_trimmed)
  have e: "filter (\<lambda>c. contains_ignoring_case sample_unicode (city_name c) t \<or>
                       contains_ignoring_case sample_unicode (state c) t) INDIAN_CITIES =
           filter (city_matches sample_unicode t) INDIAN_CITIES" for t
    by (rule filter_cong) (simp_all add: city_matches_iff)
  have 4: "map city_name (shown_results (onChange sample_unicode term_tamil empty_search)) =
     map units
       [''Chennai'', ''Coimbatore'', ''Madurai'', ''Tiruchirappalli'', ''Salem'', ''Tirunelveli'',
        ''Erode'', ''Vellore'']"
    unfolding 3 e take_map [symmetric] tamil_rows by simp
  have "shown_results (onChange sample_unicode term_kelvin empty_search) =
     take 8 (filter (city_matches sample_unicode term_kelvin) INDIAN_CITIES)"
    using d by (simp add: sample_trimmed e)
  then have 5: "map city_name (shown_results (onChange sample_unicode term_kelvin empty_search)) =
     map units [''Kochi'']"
    by (simp add: take_map [symmetric] kelvin_rows)
  from 1 2 3 4 5 show ?thesis by (simp add: sample_trimmed)
qed

section \<open>Properties of the optimiser\<close>

subsection \<open>The codec round trip\<close>

lemma position_nth:
  assumes "distinct t" and "k < length t"
  shows "position t (t ! k) = k"
proof -
  have "takeWhile (\<lambda>j. j \<noteq> t ! k) t = take k t"
  proof (rule takeWhile_eq_take_P_nth)
    fix i assume "i < k" "i < length t"
    with assms show "t ! i \<noteq> t ! k"
      by (simp add: nth_eq_iff_index_eq)
  next
    show "\<not> t ! k \<noteq> t ! k" by simp
  qed
  with assms show ?thesis by (simp add: position_def)
qed

lemma length_encode: "length (encode t) = length t"
  by (simp add: encode_def del: upt_Suc)

lemma encode_nth:
  assumes "1 \<le> i" and "i \<le> length t"
  shows "encode t ! (i - 1) = real (Suc (position t i)) / real (Suc (length t))"
proof -
  from assms have "i - 1 < length [1..<Suc (length t)]" by (simp del: upt_Suc)
  then have "encode t ! (i - 1) =
      (\<lambda>i. real (Suc (position t i)) / real (Suc (length t))) ([1..<Suc (length t)] ! (i - 1))"
    unfolding encode_def by (rule nth_map)
  also from assms have "[1..<Suc (length t)] ! (i - 1) = i" by (simp del: upt_Suc)
  finally show ?thesis .
qed

lemma valid_tour_length: "valid_tour n t \<Longrightarrow> length t = n - 2"
proof -
  assume "valid_tour n t"
  then have "size (mset t) = size (mset [1..<n - 1])" by (simp add: valid_tour_def)
  then show ?thesis by simp
qed

lemma valid_tour_upt: "valid_tour n t \<Longrightarrow> mset t = mset [1..<Suc (length t)]"
proof -
  assume v: "valid_tour n t"
  then have "length t = n - 2" by (rule valid_tour_length)
  then have "Suc (length t) = n - 1 \<or> (Suc (length t) \<le> 1 \<and> n - 1 \<le> 1)"
    by arith
  then have "[1..<Suc (length t)] = [1..<n - 1]"
    by (auto simp del: upt_Suc)
  with v show ?thesis by (simp add: valid_tour_def)
qed

lemma decode_encode:
  assumes "mset t = mset [1..<Suc (length t)]"
  shows "decode (encode t) = t"
proof -
  let ?d = "length t"
  let ?f = "\<lambda>i. encode t ! (i - 1)"
  have dist: "distinct t"
    using mset_eq_imp_distinct_iff [OF assms] by simp
  have set_t: "set t = {1..<Suc ?d}"
    using mset_eq_setD [OF assms] by (simp del: upt_Suc)
  have key: "?f (t ! k) = real (Suc k) / real (Suc ?d)" if "k < ?d" for k
  proof -
    from that have "t ! k \<in> set t" by simp
    with set_t have "1 \<le> t ! k" "t ! k \<le> ?d" by auto
    then have "?f (t ! k) = real (Suc (position t (t ! k))) / real (Suc ?d)"
      by (rule encode_nth)
    with dist that show ?thesis by (simp add: position_nth)
  qed
  have inj: "inj_on ?f (set [1..<Suc ?d])"
  proof (rule inj_onI)
    fix x y assume "x \<in> set [1..<Suc ?d]" "y \<in> set [1..<Suc ?d]" and eq: "?f x = ?f y"
    with set_t have "x \<in> set t" "y \<in> set t" by (simp_all del: upt_Suc)
    then obtain a b where ab: "a < ?d" "t ! a = x" "b < ?d" "t ! b = y"
      by (auto simp: in_set_conv_nth)
    with eq key [of a] key [of b] have "real (Suc a) / real (Suc ?d) = real (Suc b) / real (Suc ?d)"
      by simp
    then have "a = b" by simp
    with ab show "x = y" by simp
  qed
  have srt: "sorted (map ?f t)"
    unfolding sorted_iff_nth_mono
  proof (intro allI impI)
    fix i j assume "i \<le> j" "j < length (map ?f t)"
    then have "i < ?d" "j < ?d" by simp_all
    with key [of i] key [of j] \<open>i \<le> j\<close>
    show "map ?f t ! i \<le> map ?f t ! j"
      by (simp add: divide_right_mono)
  qed
  have "sort_key ?f [1..<Suc ?d] = t"
    using assms [symmetric] inj srt by (rule sort_key_inj_key_eq)
  then show ?thesis by (simp add: decode_def length_encode del: upt_Suc)
qed

text \<open>
  Claim C2. For every valid Tour \<open>t\<close> (a permutation of the interior indices), decoding the key
  vector that \<open>encode\<close> produces gives \<open>t\<close> again.
\<close>

theorem decode_encode_roundtrip: "valid_tour n t \<Longrightarrow> decode (encode t) = t"
  by (rule decode_encode) (rule valid_tour_upt)

lemma decode_sample: "decode [2/5, 4/5, 1/5, 3/5] = [3, 1, 4, 2]"
  by (simp add: decode_def upt_rec)

text \<open>Equal keys are ordered by index.\<close>

lemma decode_ties: "decode [1/2, 1/2, 1/5, 1/2] = [3, 1, 2, 4]"
  by (simp add: decode_def upt_rec)

theorem decode_encode_roundtrip_witness:
  "valid_tour 6 [3, 1, 4, 2] \<and> encode [3, 1, 4, 2] = [2/5, 4/5, 1/5, 3/5] \<and>
   decode (encode [3, 1, 4, 2]) = [3, 1, 4, 2]"
proof -
  have v: "valid_tour 6 [3, 1, 4, 2]"
    by code_simp
  have e: "encode [3, 1, 4, 2] = [2/5, 4/5, 1/5, 3/5]"
    by (simp add: encode_def position_def upt_rec)
  from v e decode_encode_roundtrip [OF v] show ?thesis by simp
qed

subsection \<open>The refiner stops at a local optimum or at its cap\<close>

lemma moves_iff: "(i, j) \<in> set (moves n) \<longleftrightarrow> i < j \<and> Suc j < n"
  by (auto simp: moves_def image_iff)

lemma first_improving_None:
  "first_improving m p = None \<longleftrightarrow>
     (\<forall>i j. i < j \<longrightarrow> Suc j < length p \<longrightarrow>
        \<not> path_cost m (reverse_segment i j p) < path_cost m p)"
  by (auto simp: first_improving_def find_None_iff improves_def moves_iff)

lemma first_improving_Some:
  assumes "first_improving m p = Some (i, j)"
  shows "i < j \<and> Suc j < length p \<and> path_cost m (reverse_segment i j p) < path_cost m p"
proof -
  from assms have "(i, j) \<in> set (moves (length p)) \<and> improves m p (i, j)"
    by (auto simp: first_improving_def find_Some_iff)
  then show ?thesis by (simp add: moves_iff improves_def)
qed

lemma two_opt_local_optimum:
  "two_opt cap m p = (q, True) \<Longrightarrow> first_improving m q = None"
proof (induction cap arbitrary: p)
  case 0
  then show ?case by simp
next
  case (Suc cap)
  show ?case
  proof (cases "first_improving m p")
    case None
    with Suc.prems show ?thesis by simp
  next
    case (Some ij)
    obtain i j where "ij = (i, j)" by (cases ij)
    with Some Suc.prems have "two_opt cap m (reverse_segment i j p) = (q, True)" by simp
    then show ?thesis by (rule Suc.IH)
  qed
qed


lemma capped_run: "two_opt 1 line_matrix [0, 2, 1, 4, 3, 5] = ([0, 1, 2, 4, 3, 5], False)"
  by code_simp

lemma capped_move:
  "path_cost line_matrix (reverse_segment 2 4 [0, 1, 2, 4, 3, 5]) < path_cost line_matrix [0, 1, 2, 4, 3, 5]"
  by (simp add: reverse_segment_def line_matrix_def)

lemma full_run: "two_opt 3 line_matrix [0, 2, 1, 4, 3, 5] = ([0, 1, 2, 3, 4, 5], True)"
  by code_simp

text \<open>
  Claim C3, as amended. When the refiner stops because a full scan found no improving move (its
  flag is \<open>True\<close>), no single 2-opt move on edges \<open>(i, i + 1)\<close> and \<open>(j, j + 1)\<close> with \<open>i < j\<close>
  makes the returned path strictly cheaper. The claim as written drops the condition, and the
  pass cap of section 4.4 makes it fail: see the run with cap 1 below.
\<close>

theorem two_opt_optimal_unless_capped:
  assumes "two_opt cap m p = (q, True)" and "i < j" and "Suc j < length q"
  shows "\<not> path_cost m (reverse_segment i j q) < path_cost m q"
  using two_opt_local_optimum [OF assms(1)] assms(2,3) by (simp add: first_improving_None)

theorem two_opt_optimal_unless_capped_witness:
  "two_opt 3 line_matrix [0, 2, 1, 4, 3, 5] = ([0, 1, 2, 3, 4, 5], True) \<and> (2::nat) < 4 \<and>
   Suc 4 < length [0, 1, 2, 3, 4, 5::nat] \<and>
   \<not> path_cost line_matrix (reverse_segment 2 4 [0, 1, 2, 3, 4, 5]) < path_cost line_matrix [0, 1, 2, 3, 4, 5]"
proof -
  have a: "(2::nat) < 4" and b: "Suc 4 < length [0, 1, 2, 3, 4, 5::nat]" by simp_all
  from full_run a b two_opt_optimal_unless_capped [OF full_run a b] show ?thesis by simp
qed

text \<open>
  The claim as written fails: with a pass cap of 1 the refiner applies one move to the path
  \<open>0, 2, 1, 4, 3, 5\<close> on the line and stops; reversing positions 3 to 4 of what it returns is still
  a strict improvement.
\<close>

theorem two_opt_capped_counterexample:
  "two_opt 1 line_matrix [0, 2, 1, 4, 3, 5] = ([0, 1, 2, 4, 3, 5], False) \<and>
   (2::nat) < 4 \<and> Suc 4 < length (fst (two_opt 1 line_matrix [0, 2, 1, 4, 3, 5])) \<and>
   path_cost line_matrix (reverse_segment 2 4 (fst (two_opt 1 line_matrix [0, 2, 1, 4, 3, 5])))
     < path_cost line_matrix (fst (two_opt 1 line_matrix [0, 2, 1, 4, 3, 5]))"
  unfolding capped_run using capped_move by simp

subsection \<open>The refiner keeps the points and the end points of a path\<close>

lemma mset_reverse_segment:
  assumes "i \<le> j"
  shows "mset (reverse_segment i j p) = mset p"
proof -
  have "take (j - i) (drop (Suc i) p) @ drop (Suc j) p = drop (Suc i) p"
  proof -
    from assms have "drop (Suc j) p = drop (j - i) (drop (Suc i) p)" by simp
    then show ?thesis by (simp only: append_take_drop_id)
  qed
  then have "mset (take (j - i) (drop (Suc i) p) @ drop (Suc j) p) = mset (drop (Suc i) p)"
    by (rule arg_cong)
  then have "mset (take (j - i) (drop (Suc i) p)) + mset (drop (Suc j) p) = mset (drop (Suc i) p)"
    by (simp only: mset_append)
  moreover have "mset (take (Suc i) p @ drop (Suc i) p) = mset p"
    by (simp only: append_take_drop_id)
  then have "mset (take (Suc i) p) + mset (drop (Suc i) p) = mset p"
    by (simp only: mset_append)
  ultimately show ?thesis
    by (simp add: reverse_segment_def add.assoc)
qed

lemma hd_reverse_segment: "p \<noteq> [] \<Longrightarrow> hd (reverse_segment i j p) = hd p"
  by (cases p) (simp_all add: reverse_segment_def)

lemma last_reverse_segment:
  assumes "Suc j < length p"
  shows "last (reverse_segment i j p) = last p"
proof -
  from assms have ne: "drop (Suc j) p \<noteq> []" by simp
  then have "last (reverse_segment i j p) = last (drop (Suc j) p)"
    by (simp add: reverse_segment_def)
  also from assms have "\<dots> = last p" by (simp add: last_drop)
  finally show ?thesis .
qed

lemma two_opt_keeps:
  "mset (fst (two_opt cap m p)) = mset p \<and>
   hd (fst (two_opt cap m p)) = hd p \<and>
   last (fst (two_opt cap m p)) = last p"
proof (induction cap arbitrary: p)
  case 0
  show ?case by simp
next
  case (Suc cap)
  show ?case
  proof (cases "first_improving m p")
    case None
    then show ?thesis by simp
  next
    case (Some ij)
    obtain i j where ij: "ij = (i, j)" by (cases ij)
    with Some have range: "i < j" "Suc j < length p"
      using first_improving_Some by blast+
    then have "p \<noteq> []" by auto
    with range have "mset (reverse_segment i j p) = mset p"
      "hd (reverse_segment i j p) = hd p" "last (reverse_segment i j p) = last p"
      by (simp_all add: mset_reverse_segment hd_reverse_segment last_reverse_segment)
    with Suc.IH [of "reverse_segment i j p"] Some ij show ?thesis by simp
  qed
qed

text \<open>
  Every move makes the path strictly cheaper and keeps its points, so a cap larger than the
  number of cheaper rearrangements lets the refiner reach a local optimum.
\<close>

lemma finite_rearrangements: "finite {q. mset q = mset p}"
proof -
  have "{q. mset q = mset p} \<subseteq> {q. set q \<subseteq> set p \<and> length q = length p}"
    by (auto dest: mset_eq_setD mset_eq_length)
  moreover have "finite {q. set q \<subseteq> set p \<and> length q = length p}"
    by (rule finite_lists_length_eq) simp
  ultimately show ?thesis by (rule finite_subset)
qed

lemma finite_cheaper: "finite (cheaper m p)"
  unfolding cheaper_def by (rule finite_subset [OF _ finite_rearrangements [of p]]) auto

lemma cheaper_step:
  assumes "first_improving m p = Some (i, j)"
  shows "card (cheaper m (reverse_segment i j p)) < card (cheaper m p)"
proof -
  let ?p' = "reverse_segment i j p"
  from assms have r: "i < j" "path_cost m ?p' < path_cost m p"
    using first_improving_Some by blast+
  then have ms: "mset ?p' = mset p" by (simp add: mset_reverse_segment)
  have "cheaper m ?p' \<subseteq> cheaper m p"
    using r(2) ms by (auto simp: cheaper_def)
  moreover have "?p' \<in> cheaper m p" "?p' \<notin> cheaper m ?p'"
    using r(2) ms by (simp_all add: cheaper_def)
  ultimately have "cheaper m ?p' \<subset> cheaper m p" by auto
  then show ?thesis by (rule psubset_card_mono [OF finite_cheaper])
qed

lemma two_opt_enough_passes:
  "card (cheaper m p) < cap \<Longrightarrow> snd (two_opt cap m p)"
proof (induction cap arbitrary: p)
  case 0
  then show ?case by simp
next
  case (Suc cap)
  show ?case
  proof (cases "first_improving m p")
    case None
    then show ?thesis by simp
  next
    case (Some ij)
    obtain i j where ij: "ij = (i, j)" by (cases ij)
    with Some have "card (cheaper m (reverse_segment i j p)) < card (cheaper m p)"
      by (simp add: cheaper_step)
    with Suc.prems have "card (cheaper m (reverse_segment i j p)) < cap" by simp
    then have "snd (two_opt cap m (reverse_segment i j p))" by (rule Suc.IH)
    with Some ij show ?thesis by simp
  qed
qed

lemma two_opt_reaches_optimum: "\<exists>cap. snd (two_opt cap m p)"
  using two_opt_enough_passes [of m p "Suc (card (cheaper m p))"] by blast

subsection \<open>Decoding gives a tour\<close>

lemma mset_decode: "mset (decode ks) = mset [1..<Suc (length ks)]"
  by (simp add: decode_def del: upt_Suc)

lemma length_decode: "length (decode ks) = length ks"
  by (simp add: decode_def del: upt_Suc)

lemma valid_tour_decode: "length ks = n - 2 \<Longrightarrow> 2 \<le> n \<Longrightarrow> valid_tour n (decode ks)"
proof -
  assume "length ks = n - 2" "2 \<le> n"
  then have "Suc (length ks) = n - 1" by arith
  then show ?thesis by (simp add: valid_tour_def mset_decode del: upt_Suc)
qed

lemma expand_valid:
  assumes "valid_tour n t" and "2 \<le> n"
  shows "mset (expand n t) = mset [0..<n]" and "hd (expand n t) = 0"
    and "last (expand n t) = n - 1"
proof -
  define k where "k = n - 2"
  with assms(2) have n: "n = Suc (Suc k)" by arith
  have "[0..<Suc (Suc k)] = [0..<Suc k] @ [Suc k]" by simp
  also have "[0..<Suc k] = 0 # [1..<Suc k]" by (simp add: upt_conv_Cons del: upt_Suc)
  finally have "[0..<n] = 0 # [1..<n - 1] @ [n - 1]" by (simp add: n del: upt_Suc)
  with assms(1) show "mset (expand n t) = mset [0..<n]"
    by (simp add: expand_def valid_tour_def del: upt_Suc)
  show "hd (expand n t) = 0" "last (expand n t) = n - 1"
    by (simp_all add: expand_def)
qed

subsection \<open>Every candidate of a phase is well formed\<close>

lemma length_draw_keys: "length (fst (draw_keys d g)) = d"
  by (induction d arbitrary: g) (simp_all add: split_def Let_def)

lemma length_collapse: "length (fst (collapse ab bk g)) = min (length ab) (length bk)"
proof (induction ab bk g rule: collapse.induct)
  case (1 a b ab k bestKey g)
  have "length (fst (collapse ab bestKey (snd (uniform g)))) = min (length ab) (length bestKey)"
    by (rule "1.IH" [OF refl prod.collapse])
  then show ?case by (simp add: split_def Let_def)
qed simp_all

lemma evaluate_ok: "length ks = n - 2 \<Longrightarrow> candidate_ok m n (evaluate m n ks)"
  by (simp add: candidate_ok_def evaluate_def)

lemma better_ok: "candidate_ok m n a \<Longrightarrow> candidate_ok m n b \<Longrightarrow> candidate_ok m n (better a b)"
  by (simp add: better_def)

lemma cost_better: "cost (better a b) \<le> cost a" "cost (better a b) \<le> cost b"
  by (simp_all add: better_def)

lemma elite_ok:
  assumes "candidate_ok m n b" and "\<forall>c \<in> set cs. candidate_ok m n c"
  shows "candidate_ok m n (elite b cs)"
  using assms unfolding elite_def
  by (induction cs arbitrary: b) (simp_all add: better_ok)

lemma cost_elite_le: "cost (elite b cs) \<le> cost b"
  unfolding elite_def
proof (induction cs arbitrary: b)
  case Nil
  show ?case by simp
next
  case (Cons c cs)
  have "cost (foldl better (better b c) cs) \<le> cost (better b c)" by (rule Cons.IH)
  also have "\<dots> \<le> cost b" by (rule cost_better)
  finally show ?case by simp
qed

lemma cost_elite_le_member: "c \<in> set cs \<Longrightarrow> cost (elite b cs) \<le> cost c"
  unfolding elite_def
proof (induction cs arbitrary: b)
  case Nil
  then show ?case by simp
next
  case (Cons x cs)
  show ?case
  proof (cases "c = x")
    case True
    have "cost (foldl better (better b x) cs) \<le> cost (better b x)"
      using cost_elite_le [of "better b x" cs] by (simp add: elite_def)
    also have "\<dots> \<le> cost x" by (rule cost_better)
    finally show ?thesis using True by simp
  next
    case False
    with Cons.prems have "c \<in> set cs" by simp
    then have "cost (foldl better (better b x) cs) \<le> cost c" by (rule Cons.IH)
    then show ?thesis by simp
  qed
qed

lemma draw_members_ok:
  "\<forall>q \<in> set (fst (draw_members m n k g)). member_ok m n q"
  by (induction k arbitrary: g)
     (simp_all add: split_def Let_def member_ok_def evaluate_ok length_draw_keys)


lemma input_order_member:
  "member_ok m n \<lparr>amps = replicate (n - 2) (1 / sqrt 2, 1 / sqrt 2),
                    current = evaluate m n (encode [1..<n - 1])\<rparr>"
proof -
  have "length (encode [1..<n - 1]) = n - 2"
    by (simp add: length_encode)
  then have "candidate_ok m n (evaluate m n (encode [1..<n - 1]))"
    by (rule evaluate_ok)
  then show ?thesis by (simp add: member_ok_def)
qed

lemma init_population_ok:
  "\<forall>q \<in> set (fst (init_population m n k g)). member_ok m n q"
  using draw_members_ok [of m n "k - 1" g] input_order_member [of m n]
  by (simp add: init_population_def split_def Let_def)


lemma init_population_nonempty: "fst (init_population m n k g) \<noteq> []"
  by (simp add: init_population_def split_def Let_def)

lemma quantum_step_ok:
  assumes "member_ok m n q" and "length bk = n - 2"
  shows "member_ok m n (fst (quantum_step m n \<theta> t bk q g))"
proof -
  let ?ks = "fst (collapse (map (rotate \<theta>) (amps q)) bk g)"
  from assms have "length ?ks = n - 2"
    by (simp add: length_collapse member_ok_def)
  then have "candidate_ok m n (evaluate m n ?ks)" by (rule evaluate_ok)
  with assms(1) show ?thesis
    by (simp add: quantum_step_def member_ok_def split_def Let_def)
qed

lemma quantum_sweep_ok:
  assumes "\<forall>q \<in> set qs. member_ok m n q" and "length bk = n - 2"
  shows "\<forall>q \<in> set (fst (quantum_sweep m n \<theta> t bk qs g)). member_ok m n q"
  using assms
  by (induction qs arbitrary: g) (simp_all add: split_def Let_def quantum_step_ok)

lemma length_quantum_sweep: "length (fst (quantum_sweep m n \<theta> t bk qs g)) = length qs"
  by (induction qs arbitrary: g) (simp_all add: split_def Let_def)

lemma quantum_iteration_ok:
  assumes "quantum_ok m n st"
  shows "quantum_ok m n (quantum_iteration cfg m n t st)"
proof -
  let ?\<theta> = "rotation cfg * (1 - real t / real (T1 cfg))"
  let ?sw = "quantum_sweep m n ?\<theta> (temp st) (keys (leader st)) (population st) (gen st)"
  from assms have ok: "\<forall>q \<in> set (fst ?sw). member_ok m n q"
    by (intro quantum_sweep_ok) (simp_all add: quantum_ok_def candidate_ok_def)
  from assms have ne: "fst ?sw \<noteq> []"
    using length_quantum_sweep [of m n ?\<theta> "temp st" "keys (leader st)" "population st" "gen st"]
    by (auto simp: quantum_ok_def)
  from ok have "\<forall>c \<in> set (map current (fst ?sw)). candidate_ok m n c"
    by (simp add: member_ok_def)
  with assms have "candidate_ok m n (elite (leader st) (map current (fst ?sw)))"
    by (simp add: quantum_ok_def elite_ok)
  with ok ne show ?thesis
    by (simp add: quantum_iteration_def quantum_ok_def split_def Let_def)
qed

lemma cost_quantum_iteration:
  "cost (leader (quantum_iteration cfg m n t st)) \<le> cost (leader st)"
  by (simp add: quantum_iteration_def split_def Let_def cost_elite_le)

lemma phase_loop_invariant:
  assumes "\<And>t s. I s \<Longrightarrow> I (step t s)" and "I st"
  shows "I (fst (phase_loop step pat signal left t st))"
  using assms(2)
  by (induction left arbitrary: t st) (simp_all add: assms(1))

lemma phase_loop_cost:
  assumes "\<And>t s. cost (leader (step t s)) \<le> cost (leader s)"
  shows "cost (leader (fst (phase_loop step pat signal left t st))) \<le> cost (leader st)"
proof (induction left arbitrary: t st)
  case 0
  show ?case by simp
next
  case (Suc left)
  have "cost (leader (fst (phase_loop step pat signal left (Suc t) (step t st))))
      \<le> cost (leader (step t st))"
    by (rule Suc.IH)
  also have "\<dots> \<le> cost (leader st)" by (rule assms)
  finally show ?case by simp
qed

lemma initial_population_facts:
  "initial_population cfg m n \<noteq> []"
  "\<forall>q \<in> set (initial_population cfg m n). member_ok m n q"
proof -
  show "initial_population cfg m n \<noteq> []"
    unfolding initial_population_def by (rule init_population_nonempty)
  show "\<forall>q \<in> set (initial_population cfg m n). member_ok m n q"
    unfolding initial_population_def by (rule init_population_ok)
qed


lemma quantum_phase_start:
  "\<exists>st. fst (quantum_phase cfg signal m n (seed cfg, 0)) =
          fst (phase_loop (quantum_iteration cfg m n) (patience cfg) signal (T1 cfg) 1 st) \<and>
        quantum_ok m n st \<and>
        (\<forall>q \<in> set (initial_population cfg m n). cost (leader st) \<le> cost (current q))"
proof -
  let ?pop = "initial_population cfg m n"
  let ?st = "\<lparr>population = ?pop, leader = elite (current (hd ?pop)) (map current (tl ?pop)),
       stall = 0, temp = temperature cfg,
       gen = snd (init_population m n (pop_size cfg) (seed cfg, 0))\<rparr>"
  note ne = initial_population_facts(1) [of cfg m n]
  note ok = initial_population_facts(2) [of cfg m n]
  from ne have sel: "hd ?pop \<in> set ?pop" "set (tl ?pop) \<subseteq> set ?pop"
    by (simp_all add: list.set_sel(2) subsetI)
  with ok have "candidate_ok m n (current (hd ?pop))"
    "\<forall>c \<in> set (map current (tl ?pop)). candidate_ok m n c"
    by (auto simp: member_ok_def)
  then have "candidate_ok m n (elite (current (hd ?pop)) (map current (tl ?pop)))"
    by (rule elite_ok)
  with ok ne have inv: "quantum_ok m n ?st"
    by (simp add: quantum_ok_def)
  have le: "cost (leader ?st) \<le> cost (current q)" if "q \<in> set ?pop" for q
  proof (cases "q = hd ?pop")
    case True
    then show ?thesis by (simp add: cost_elite_le)
  next
    case False
    with that ne have "q \<in> set (tl ?pop)" by (cases ?pop) auto
    then have "current q \<in> set (map current (tl ?pop))" by simp
    then show ?thesis by (simp add: cost_elite_le_member)
  qed
  have "fst (quantum_phase cfg signal m n (seed cfg, 0)) =
          fst (phase_loop (quantum_iteration cfg m n) (patience cfg) signal (T1 cfg) 1 ?st)"
    by (simp add: quantum_phase_def split_def Let_def initial_population_def)
  with inv le show ?thesis by blast
qed

lemma quantum_phase_ok:
  "quantum_ok m n (fst (quantum_phase cfg signal m n (seed cfg, 0)))"
  "\<forall>q \<in> set (initial_population cfg m n).
     cost (leader (fst (quantum_phase cfg signal m n (seed cfg, 0)))) \<le> cost (current q)"
proof -
  obtain st where st:
    "fst (quantum_phase cfg signal m n (seed cfg, 0)) =
       fst (phase_loop (quantum_iteration cfg m n) (patience cfg) signal (T1 cfg) 1 st)"
    "quantum_ok m n st"
    "\<forall>q \<in> set (initial_population cfg m n). cost (leader st) \<le> cost (current q)"
    using quantum_phase_start by blast
  have "quantum_ok m n
      (fst (phase_loop (quantum_iteration cfg m n) (patience cfg) signal (T1 cfg) 1 st))"
    using st(2) by (rule phase_loop_invariant [rotated]) (rule quantum_iteration_ok)
  with st(1) show "quantum_ok m n (fst (quantum_phase cfg signal m n (seed cfg, 0)))"
    by simp
  have "cost (leader (fst (phase_loop (quantum_iteration cfg m n) (patience cfg) signal (T1 cfg) 1 st)))
      \<le> cost (leader st)"
    by (rule phase_loop_cost) (rule cost_quantum_iteration)
  with st(1,3)
  show "\<forall>q \<in> set (initial_population cfg m n).
     cost (leader (fst (quantum_phase cfg signal m n (seed cfg, 0)))) \<le> cost (current q)"
    by force
qed

lemma pick_less: "0 < k \<Longrightarrow> pick k u < k"
  by (simp add: pick_def min_less_iff_disj)

lemma length_whale_move:
  assumes "length lead = d" and "length x = d" and "pop \<noteq> []"
    and "\<forall>y \<in> set pop. length y = d"
  shows "length (fst (whale_move cfg a lead pop x g)) = d"
proof -
  from assms(3) have "pick (length pop) u < length pop" for u
    by (simp add: pick_less)
  with assms(4) have "length (pop ! pick (length pop) u) = d" for u
    by simp
  with assms(1,2) show ?thesis
    by (simp add: whale_move_def split_def Let_def)
qed

lemma whale_step_ok:
  assumes "candidate_ok m n lead" and "candidate_ok m n x" and "pop \<noteq> []"
    and "\<forall>c \<in> set pop. candidate_ok m n c"
  shows "candidate_ok m n (fst (whale_step cfg m n a lead pop x g))"
proof -
  from assms have "length (fst (whale_move cfg a (keys lead) (map keys pop) (keys x) g)) = n - 2"
    by (intro length_whale_move) (simp_all add: candidate_ok_def)
  then have "candidate_ok m n
      (evaluate m n (fst (whale_move cfg a (keys lead) (map keys pop) (keys x) g)))"
    by (rule evaluate_ok)
  with assms(2) show ?thesis
    by (simp add: whale_step_def split_def Let_def better_ok)
qed

lemma whale_sweep_ok:
  assumes "candidate_ok m n lead" and "pop \<noteq> []" and "\<forall>c \<in> set pop. candidate_ok m n c"
    and "\<forall>c \<in> set xs. candidate_ok m n c"
  shows "\<forall>c \<in> set (fst (whale_sweep cfg m n a lead pop xs g)). candidate_ok m n c"
  using assms(4)
  by (induction xs arbitrary: g)
     (simp_all add: split_def Let_def whale_step_ok [OF assms(1) _ assms(2,3)])

lemma length_whale_sweep: "length (fst (whale_sweep cfg m n a lead pop xs g)) = length xs"
  by (induction xs arbitrary: g) (simp_all add: split_def Let_def)

lemma whale_iteration_ok:
  assumes "whale_ok m n st"
  shows "whale_ok m n (whale_iteration cfg m n t st)"
proof -
  let ?a = "2 * (1 - real t / real (T2 cfg))"
  let ?sw = "whale_sweep cfg m n ?a (leader st) (population st) (population st) (gen st)"
  from assms have ok: "\<forall>c \<in> set (fst ?sw). candidate_ok m n c"
    by (intro whale_sweep_ok) (simp_all add: whale_ok_def)
  from assms have ne: "fst ?sw \<noteq> []"
    using length_whale_sweep [of cfg m n ?a "leader st" "population st" "population st" "gen st"]
    by (auto simp: whale_ok_def)
  from assms ok have "candidate_ok m n (elite (leader st) (fst ?sw))"
    by (simp add: whale_ok_def elite_ok)
  with ok ne show ?thesis
    by (simp add: whale_iteration_def whale_ok_def split_def Let_def)
qed

lemma cost_whale_iteration:
  "cost (leader (whale_iteration cfg m n t st)) \<le> cost (leader st)"
  by (simp add: whale_iteration_def split_def Let_def cost_elite_le)

lemma decode_encode_decode: "decode (encode (decode ks)) = decode ks"
  by (rule decode_encode) (simp add: mset_decode length_decode del: upt_Suc)

lemma reseed_ok:
  assumes "candidate_ok m n c"
  shows "candidate_ok m n (reseed m n c)" and "cost (reseed m n c) = cost c"
proof -
  have "length (encode (decode (keys c))) = length (keys c)"
    by (simp add: length_encode length_decode)
  with assms have "length (encode (decode (keys c))) = n - 2"
    by (simp add: candidate_ok_def)
  then show "candidate_ok m n (reseed m n c)"
    unfolding reseed_def by (rule evaluate_ok)
  from assms show "cost (reseed m n c) = cost c"
    by (simp add: reseed_def evaluate_def decode_encode_decode candidate_ok_def)
qed

lemma whale_phase_ok:
  assumes "quantum_ok m n q"
  shows "whale_ok m n (fst (whale_phase cfg signal m n q))"
    and "cost (leader (fst (whale_phase cfg signal m n q))) \<le> cost (leader q)"
proof -
  let ?st = "\<lparr>population = map (reseed m n \<circ> current) (population q),
       leader = reseed m n (leader q), stall = 0, temp = temp q, gen = gen q\<rparr>"
  from assms have "whale_ok m n ?st"
    by (simp add: whale_ok_def quantum_ok_def member_ok_def reseed_ok)
  then show "whale_ok m n (fst (whale_phase cfg signal m n q))"
    unfolding whale_phase_def Let_def
    by (rule phase_loop_invariant [rotated]) (rule whale_iteration_ok)
  have "cost (leader (fst (phase_loop (whale_iteration cfg m n) (patience cfg) signal (T2 cfg) 1 ?st)))
      \<le> cost (leader ?st)"
    by (rule phase_loop_cost) (rule cost_whale_iteration)
  also from assms have "cost (leader ?st) = cost (leader q)"
    by (simp add: reseed_ok quantum_ok_def)
  finally show "cost (leader (fst (whale_phase cfg signal m n q))) \<le> cost (leader q)"
    by (simp add: whale_phase_def Let_def)
qed

text \<open>
  The path the search hands back is the refined path of a well-formed candidate that costs no
  more than any member of the initial population, the input order among them.
\<close>

lemma search_shape:
  "\<exists>best. candidate_ok m n best \<and>
     (\<forall>q \<in> set (initial_population cfg m n). cost best \<le> cost (current q)) \<and>
     fst (search cfg env m n) = two_opt (pass_cap cfg) m (expand n (decode (keys best)))"
proof -
  let ?q = "quantum_phase cfg (cancelled env Exploring) m n (seed cfg, 0)"
  let ?w = "whale_phase cfg (cancelled env Exploiting) m n (fst ?q)"
  let ?best = "if snd (snd ?q) then leader (fst ?q) else leader (fst ?w)"
  have q: "quantum_ok m n (fst ?q)" by (rule quantum_phase_ok)
  have ql: "\<forall>p \<in> set (initial_population cfg m n). cost (leader (fst ?q)) \<le> cost (current p)"
    by (rule quantum_phase_ok)
  from q have w: "whale_ok m n (fst ?w)" by (rule whale_phase_ok)
  from q have wl: "cost (leader (fst ?w)) \<le> cost (leader (fst ?q))" by (rule whale_phase_ok)
  from q w have 1: "candidate_ok m n ?best"
    by (simp add: quantum_ok_def whale_ok_def)
  from ql wl have 2: "\<forall>p \<in> set (initial_population cfg m n). cost ?best \<le> cost (current p)"
    by force
  have 3: "fst (search cfg env m n) = two_opt (pass_cap cfg) m (expand n (decode (keys ?best)))"
    by (simp add: search_def split_def Let_def)
  from 1 2 3 show ?thesis by blast
qed

lemma search_path:
  assumes "2 \<le> n"
  shows "mset (fst (fst (search cfg env m n))) = mset [0..<n] \<and>
         hd (fst (fst (search cfg env m n))) = 0 \<and>
         last (fst (fst (search cfg env m n))) = n - 1"
proof -
  obtain best where ks: "candidate_ok m n best"
    and s: "fst (search cfg env m n) = two_opt (pass_cap cfg) m (expand n (decode (keys best)))"
    using search_shape by blast
  from ks assms have "valid_tour n (decode (keys best))"
    by (intro valid_tour_decode) (simp_all add: candidate_ok_def)
  from expand_valid [OF this assms]
    two_opt_keeps [of "pass_cap cfg" m "expand n (decode (keys best))"] s
  show ?thesis by simp
qed

subsection \<open>A complete run on five points\<close>


lemma corner_best: "fitness corner_matrix 5 [2, 3, 1] = 11"
  by code_simp

lemma corner_decode:
  "decode [1/4, 1/2, 3/4] = [1, 2, 3]"
  "decode [9/10, 1/10, 1/2] = [2, 3, 1]" "decode [4/5, 1/5, 1/2] = [2, 3, 1]"
  "decode [3/4, 1/4, 1/2] = [2, 3, 1]" "decode [9/16, 3/16, 3/8] = [2, 3, 1]"
  "decode [5/6, 5/18, 5/9] = [2, 3, 1]"
  by code_simp+

lemma corner_encode: "encode [2, 3, 1] = [3/4, 1/4, 1/2]" "encode [1, 2, 3] = [1/4, 1/2, 3/4]"
  by code_simp+

lemma corner_evaluate:
  "evaluate corner_matrix 5 [1/4, 1/2, 3/4] = \<lparr>keys = [1/4, 1/2, 3/4], cost = 21\<rparr>"
  "evaluate corner_matrix 5 [9/10, 1/10, 1/2] = \<lparr>keys = [9/10, 1/10, 1/2], cost = 11\<rparr>"
  "evaluate corner_matrix 5 [4/5, 1/5, 1/2] = \<lparr>keys = [4/5, 1/5, 1/2], cost = 11\<rparr>"
  "evaluate corner_matrix 5 [3/4, 1/4, 1/2] = \<lparr>keys = [3/4, 1/4, 1/2], cost = 11\<rparr>"
  "evaluate corner_matrix 5 [9/16, 3/16, 3/8] = \<lparr>keys = [9/16, 3/16, 3/8], cost = 11\<rparr>"
  "evaluate corner_matrix 5 [5/6, 5/18, 5/9] = \<lparr>keys = [5/6, 5/18, 5/9], cost = 11\<rparr>"
  by code_simp+

lemma brief_draw:
  "uniform (seed brief_config, 0) = (9/10, (seed brief_config, 1))"
  "uniform (seed brief_config, 1) = (1/10, (seed brief_config, 2))"
  "uniform (seed brief_config, 2) = (1/2, (seed brief_config, 3))"
  "uniform (seed brief_config, 3) = (7/10, (seed brief_config, 4))"
  "uniform (seed brief_config, 4) = (3/10, (seed brief_config, 5))"
  "uniform (seed brief_config, 5) = (1/2, (seed brief_config, 6))"
  "uniform (seed brief_config, 6) = (7/10, (seed brief_config, 7))"
  "uniform (seed brief_config, 7) = (3/10, (seed brief_config, 8))"
  "uniform (seed brief_config, 8) = (1/2, (seed brief_config, 9))"
  "uniform (seed brief_config, 9) = (2/5, (seed brief_config, 10))"
  "uniform (seed brief_config, 10) = (3/4, (seed brief_config, 11))"
  "uniform (seed brief_config, 11) = (3/4, (seed brief_config, 12))"
  "uniform (seed brief_config, 12) = (1/5, (seed brief_config, 13))"
  "uniform (seed brief_config, 13) = (1/3, (seed brief_config, 14))"
  "uniform (seed brief_config, 14) = (2/3, (seed brief_config, 15))"
  "uniform (seed brief_config, 15) = (1/4, (seed brief_config, 16))"
  "uniform (seed brief_config, 16) = (1/3, (seed brief_config, 17))"
  "uniform (seed brief_config, 17) = (2/3, (seed brief_config, 18))"
  "uniform (seed brief_config, 18) = (1/4, (seed brief_config, 19))"
  "uniform (seed brief_config, 19) = (1/2, (seed brief_config, 20))"
  "uniform (seed brief_config, 20) = (1/2, (seed brief_config, 21))"
  "uniform (seed brief_config, 21) = (2/5, (seed brief_config, 22))"
  by (simp_all add: uniform_def brief_config_def sample_draws_def)

lemma brief_fields:
  "pop_size brief_config = 2" "T1 brief_config = 1" "T2 brief_config = 2"
  "patience brief_config = 3" "rotation brief_config = 1 / 10" "temperature brief_config = 1"
  "cooling brief_config = 9 / 10" "pass_cap brief_config = 50" "penalty brief_config = 1000000"
  by (simp_all add: brief_config_def)

lemma replicate_3: "replicate 3 x = [x, x, x]"
  by (simp add: numeral_3_eq_3)

lemma draw_keys_3:
  "draw_keys 3 g =
     (let (u1, g1) = uniform g; (u2, g2) = uniform g1; (u3, g3) = uniform g2
      in ([u1, u2, u3], g3))"
  by (simp add: numeral_3_eq_3 split_def Let_def)

lemma brief_drawn:
  "draw_members corner_matrix 5 1 (seed brief_config, 0) =
     ([\<lparr>amps = replicate 3 (1 / sqrt 2, 1 / sqrt 2),
        current = \<lparr>keys = [9/10, 1/10, 1/2], cost = 11\<rparr>\<rparr>], (seed brief_config, 3))"
proof -
  have "draw_keys 3 (seed brief_config, 0) = ([9/10, 1/10, 1/2], (seed brief_config, 3))"
    by (simp add: draw_keys_3 brief_draw [simplified])
  moreover have "draw_members corner_matrix 5 1 (seed brief_config, 0) =
      (let (ks, g1) = draw_keys 3 (seed brief_config, 0)
       in ([\<lparr>amps = replicate 3 (1 / sqrt 2, 1 / sqrt 2), current = evaluate corner_matrix 5 ks\<rparr>], g1))"
    by (simp add: split_def Let_def)
  ultimately show ?thesis by (simp add: corner_evaluate)
qed

lemma brief_input_order:
  "evaluate corner_matrix 5 (encode [1..<5 - 1]) = \<lparr>keys = [1/4, 1/2, 3/4], cost = 21\<rparr>"
  by code_simp

lemma brief_init:
  "init_population corner_matrix 5 2 (seed brief_config, 0) =
     ([\<lparr>amps = replicate 3 (1 / sqrt 2, 1 / sqrt 2),
        current = \<lparr>keys = [1/4, 1/2, 3/4], cost = 21\<rparr>\<rparr>,
       \<lparr>amps = replicate 3 (1 / sqrt 2, 1 / sqrt 2),
        current = \<lparr>keys = [9/10, 1/10, 1/2], cost = 11\<rparr>\<rparr>], (seed brief_config, 3))"
proof -
  have "init_population corner_matrix 5 2 (seed brief_config, 0) =
      (let (qs, g1) = draw_members corner_matrix 5 1 (seed brief_config, 0)
       in (\<lparr>amps = replicate 3 (1 / sqrt 2, 1 / sqrt 2),
            current = evaluate corner_matrix 5 (encode [1..<5 - 1])\<rparr> # qs, g1))"
    by (simp add: init_population_def)
  then show ?thesis
    by (simp only: brief_drawn brief_input_order Let_def split_conv)
qed

lemma half_weight: "(1 / sqrt 2)\<^sup>2 = 1 / 2"
  by (simp add: power_divide)

lemma brief_collapse:
  "collapse (replicate 3 (1 / sqrt 2, 1 / sqrt 2)) [9/10, 1/10, 1/2] (seed brief_config, 3) =
     ([4/5, 1/5, 1/2], (seed brief_config, 6))"
  "collapse (replicate 3 (1 / sqrt 2, 1 / sqrt 2)) [9/10, 1/10, 1/2] (seed brief_config, 6) =
     ([4/5, 1/5, 1/2], (seed brief_config, 9))"
  by (simp_all add: replicate_3 brief_draw [simplified] half_weight)

lemma rotate_zero: "rotate 0 = (\<lambda>ab. ab)"
  by (simp add: rotate_def fun_eq_iff)

text \<open>The member that holds the input order takes the cheaper candidate without a draw.\<close>

lemma brief_quantum_step_1:
  "quantum_step corner_matrix 5 0 1 [9/10, 1/10, 1/2]
     \<lparr>amps = replicate 3 (1 / sqrt 2, 1 / sqrt 2),
      current = \<lparr>keys = [1/4, 1/2, 3/4], cost = 21\<rparr>\<rparr> (seed brief_config, 3) =
   (\<lparr>amps = replicate 3 (1 / sqrt 2, 1 / sqrt 2),
     current = \<lparr>keys = [4/5, 1/5, 1/2], cost = 11\<rparr>\<rparr>, (seed brief_config, 6))"
  by (simp add: quantum_step_def rotate_zero brief_collapse corner_evaluate brief_draw)

text \<open>The other member meets a candidate of equal cost, which the draw \<open>0.4\<close> accepts.\<close>

lemma brief_quantum_step_2:
  "quantum_step corner_matrix 5 0 1 [9/10, 1/10, 1/2]
     \<lparr>amps = replicate 3 (1 / sqrt 2, 1 / sqrt 2),
      current = \<lparr>keys = [9/10, 1/10, 1/2], cost = 11\<rparr>\<rparr> (seed brief_config, 6) =
   (\<lparr>amps = replicate 3 (1 / sqrt 2, 1 / sqrt 2),
     current = \<lparr>keys = [4/5, 1/5, 1/2], cost = 11\<rparr>\<rparr>, (seed brief_config, 10))"
  by (simp add: quantum_step_def rotate_zero brief_collapse corner_evaluate brief_draw)

lemma brief_quantum_iteration:
  "quantum_iteration brief_config corner_matrix 5 1
     \<lparr>population = [\<lparr>amps = replicate 3 (1 / sqrt 2, 1 / sqrt 2),
                      current = \<lparr>keys = [1/4, 1/2, 3/4], cost = 21\<rparr>\<rparr>,
                     \<lparr>amps = replicate 3 (1 / sqrt 2, 1 / sqrt 2),
                      current = \<lparr>keys = [9/10, 1/10, 1/2], cost = 11\<rparr>\<rparr>],
      leader = \<lparr>keys = [9/10, 1/10, 1/2], cost = 11\<rparr>,
      stall = 0, temp = 1, gen = (seed brief_config, 3)\<rparr> =
   \<lparr>population = [\<lparr>amps = replicate 3 (1 / sqrt 2, 1 / sqrt 2),
                    current = \<lparr>keys = [4/5, 1/5, 1/2], cost = 11\<rparr>\<rparr>,
                   \<lparr>amps = replicate 3 (1 / sqrt 2, 1 / sqrt 2),
                    current = \<lparr>keys = [4/5, 1/5, 1/2], cost = 11\<rparr>\<rparr>],
    leader = \<lparr>keys = [9/10, 1/10, 1/2], cost = 11\<rparr>,
    stall = 1, temp = 9 / 10, gen = (seed brief_config, 10)\<rparr>"
  by (simp add: quantum_iteration_def brief_fields brief_quantum_step_1 brief_quantum_step_2
      elite_def better_def)

lemma brief_quantum_phase:
  "quantum_phase brief_config (\<lambda>t. False) corner_matrix 5 (seed brief_config, 0) =
   (\<lparr>population = [\<lparr>amps = replicate 3 (1 / sqrt 2, 1 / sqrt 2),
                     current = \<lparr>keys = [4/5, 1/5, 1/2], cost = 11\<rparr>\<rparr>,
                    \<lparr>amps = replicate 3 (1 / sqrt 2, 1 / sqrt 2),
                     current = \<lparr>keys = [4/5, 1/5, 1/2], cost = 11\<rparr>\<rparr>],
     leader = \<lparr>keys = [9/10, 1/10, 1/2], cost = 11\<rparr>,
     stall = 1, temp = 9 / 10, gen = (seed brief_config, 10)\<rparr>, 1, False)"
  by (simp add: quantum_phase_def brief_fields brief_init [simplified] elite_def better_def
      brief_quantum_iteration [simplified])

lemma brief_reseed:
  "reseed corner_matrix 5 \<lparr>keys = [4/5, 1/5, 1/2], cost = 11\<rparr> = \<lparr>keys = [3/4, 1/4, 1/2], cost = 11\<rparr>"
  "reseed corner_matrix 5 \<lparr>keys = [9/10, 1/10, 1/2], cost = 11\<rparr> = \<lparr>keys = [3/4, 1/4, 1/2], cost = 11\<rparr>"
  by code_simp+

lemma Suc_Suc_0: "Suc (Suc 0) = 2"
  by simp

lemma brief_whale_move_1:
  "whale_move brief_config 1 [3/4, 1/4, 1/2] [[3/4, 1/4, 1/2], [3/4, 1/4, 1/2]] [3/4, 1/4, 1/2]
     (seed brief_config, 10) = ([9/16, 3/16, 3/8], (seed brief_config, 13))"
  "whale_move brief_config 1 [3/4, 1/4, 1/2] [[3/4, 1/4, 1/2], [3/4, 1/4, 1/2]] [3/4, 1/4, 1/2]
     (seed brief_config, 13) = ([5/6, 5/18, 5/9], (seed brief_config, 16))"
  by (simp_all add: whale_move_def brief_draw clip_def)

lemma brief_whale_move_2:
  "whale_move brief_config 0 [3/4, 1/4, 1/2] [[3/4, 1/4, 1/2], [3/4, 1/4, 1/2]] [3/4, 1/4, 1/2]
     (seed brief_config, 16) = ([3/4, 1/4, 1/2], (seed brief_config, 19))"
  "whale_move brief_config 0 [3/4, 1/4, 1/2] [[3/4, 1/4, 1/2], [3/4, 1/4, 1/2]] [3/4, 1/4, 1/2]
     (seed brief_config, 19) = ([3/4, 1/4, 1/2], (seed brief_config, 22))"
  by (simp_all add: whale_move_def brief_draw clip_def)

lemma brief_whale_iteration_1:
  "whale_iteration brief_config corner_matrix 5 1
     \<lparr>population = [\<lparr>keys = [3/4, 1/4, 1/2], cost = 11\<rparr>, \<lparr>keys = [3/4, 1/4, 1/2], cost = 11\<rparr>],
      leader = \<lparr>keys = [3/4, 1/4, 1/2], cost = 11\<rparr>,
      stall = 0, temp = 9 / 10, gen = (seed brief_config, 10)\<rparr> =
   \<lparr>population = [\<lparr>keys = [3/4, 1/4, 1/2], cost = 11\<rparr>, \<lparr>keys = [3/4, 1/4, 1/2], cost = 11\<rparr>],
    leader = \<lparr>keys = [3/4, 1/4, 1/2], cost = 11\<rparr>,
    stall = 1, temp = 9 / 10, gen = (seed brief_config, 16)\<rparr>"
  by (simp add: whale_iteration_def whale_step_def brief_fields brief_whale_move_1
      corner_evaluate elite_def better_def Let_def)

lemma brief_whale_iteration_2:
  "whale_iteration brief_config corner_matrix 5 2
     \<lparr>population = [\<lparr>keys = [3/4, 1/4, 1/2], cost = 11\<rparr>, \<lparr>keys = [3/4, 1/4, 1/2], cost = 11\<rparr>],
      leader = \<lparr>keys = [3/4, 1/4, 1/2], cost = 11\<rparr>,
      stall = 1, temp = 9 / 10, gen = (seed brief_config, 16)\<rparr> =
   \<lparr>population = [\<lparr>keys = [3/4, 1/4, 1/2], cost = 11\<rparr>, \<lparr>keys = [3/4, 1/4, 1/2], cost = 11\<rparr>],
    leader = \<lparr>keys = [3/4, 1/4, 1/2], cost = 11\<rparr>,
    stall = 2, temp = 9 / 10, gen = (seed brief_config, 22)\<rparr>"
  by (simp add: whale_iteration_def whale_step_def brief_fields brief_whale_move_2
      corner_evaluate elite_def better_def Let_def Suc_Suc_0)

lemma phase_loop_2:
  "phase_loop step pat signal 2 t st =
     (if signal t then (st, t - 1, True)
      else if pat \<le> stall st then (st, t - 1, False)
      else if signal (Suc t) then (step t st, t, True)
      else if pat \<le> stall (step t st) then (step t st, t, False)
      else (step (Suc t) (step t st), Suc t, False))"
  by (simp add: numeral_2_eq_2)

lemma brief_whale_phase:
  "whale_phase brief_config (\<lambda>t. False) corner_matrix 5
     \<lparr>population = [\<lparr>amps = replicate 3 (1 / sqrt 2, 1 / sqrt 2),
                      current = \<lparr>keys = [4/5, 1/5, 1/2], cost = 11\<rparr>\<rparr>,
                     \<lparr>amps = replicate 3 (1 / sqrt 2, 1 / sqrt 2),
                      current = \<lparr>keys = [4/5, 1/5, 1/2], cost = 11\<rparr>\<rparr>],
      leader = \<lparr>keys = [9/10, 1/10, 1/2], cost = 11\<rparr>,
      stall = 1, temp = 9 / 10, gen = (seed brief_config, 10)\<rparr> =
   (\<lparr>population = [\<lparr>keys = [3/4, 1/4, 1/2], cost = 11\<rparr>, \<lparr>keys = [3/4, 1/4, 1/2], cost = 11\<rparr>],
     leader = \<lparr>keys = [3/4, 1/4, 1/2], cost = 11\<rparr>,
     stall = 2, temp = 9 / 10, gen = (seed brief_config, 22)\<rparr>, 2, False)"
proof -
  show ?thesis
    unfolding whale_phase_def Let_def
    by (simp add: brief_fields brief_reseed phase_loop_2
        brief_whale_iteration_1 [simplified] brief_whale_iteration_2 [simplified] Suc_Suc_0)
qed

lemma brief_refine:
  "two_opt 50 corner_matrix (expand 5 (decode [3/4, 1/4, 1/2])) = ([0, 2, 3, 1, 4], True)"
  by code_simp

lemma brief_search:
  "search brief_config corner_env corner_matrix 5 = (([0, 2, 3, 1, 4], True), 1, 2, False)"
proof -
  have "cancelled corner_env Exploring = (\<lambda>t. False)" "cancelled corner_env Exploiting = (\<lambda>t. False)"
    by (simp_all add: corner_env_def)
  then show ?thesis
    by (simp add: search_def brief_quantum_phase brief_whale_phase [simplified] brief_fields
        brief_refine [simplified])
qed

lemma brief_matrix: "matrix_ready brief_config corner_env five_locations = (corner_matrix, False)"
  by (simp add: matrix_ready_def corner_env_def corner_matrix_def brief_fields)

lemma brief_assemble:
  "assemble corner_env corner_matrix False [0, 2, 3, 1, 4] Hybrid 1 2 =
     \<lparr>order = [0, 2, 3, 1, 4], total_distance_km = 11, total_duration_min = 22,
      segments =
        [\<lparr>seg_from = 0, seg_to = 2, seg_distance_km = 1, seg_duration_min = 2\<rparr>,
         \<lparr>seg_from = 2, seg_to = 3, seg_distance_km = 4, seg_duration_min = 8\<rparr>,
         \<lparr>seg_from = 3, seg_to = 1, seg_distance_km = 3, seg_duration_min = 6\<rparr>,
         \<lparr>seg_from = 1, seg_to = 4, seg_distance_km = 3, seg_duration_min = 6\<rparr>],
      method_used = Hybrid, quantum_iterations = 1, whale_iterations = 2,
      compute_time = 1, degraded = False\<rparr>"
  by code_simp

lemma brief_run:
  "optimize brief_config corner_env five_locations =
     Inr \<lparr>order = [0, 2, 3, 1, 4], total_distance_km = 11, total_duration_min = 22,
      segments =
        [\<lparr>seg_from = 0, seg_to = 2, seg_distance_km = 1, seg_duration_min = 2\<rparr>,
         \<lparr>seg_from = 2, seg_to = 3, seg_distance_km = 4, seg_duration_min = 8\<rparr>,
         \<lparr>seg_from = 3, seg_to = 1, seg_distance_km = 3, seg_duration_min = 6\<rparr>,
         \<lparr>seg_from = 1, seg_to = 4, seg_distance_km = 3, seg_duration_min = 6\<rparr>],
      method_used = Hybrid, quantum_iterations = 1, whale_iterations = 2,
      compute_time = 1, degraded = False\<rparr>"
proof -
  have n: "length five_locations = 5" by (simp add: five_locations_def)
  show ?thesis
    unfolding optimize_def n Let_def brief_matrix
    by (simp add: brief_search brief_assemble [simplified])
qed

lemma five_length: "length five_locations = 5"
  by (simp add: five_locations_def)

subsection \<open>The returned order\<close>

text \<open>What \<open>optimize\<close> returns for at least two locations.\<close>

lemma optimize_result:
  assumes "2 \<le> length locs"
  shows "\<exists>r. optimize cfg env locs = Inr r \<and>
           order r = (if length locs - 2 \<le> 1 then [0..<length locs]
                      else fst (fst (search cfg env (fst (matrix_ready cfg env locs)) (length locs)))) \<and>
           total_distance_km r = path_cost (fst (matrix_ready cfg env locs)) (order r) \<and>
           compute_time r = clock_end env - clock_start env"
proof (cases "length locs - 2 \<le> 1")
  case True
  with assms show ?thesis
    by (simp add: optimize_def split_def Let_def assemble_def)
next
  case False
  with assms show ?thesis
    by (simp add: optimize_def split_def Let_def assemble_def)
qed

text \<open>The state Init: the only error, and exactly for fewer than two locations.\<close>

lemma optimize_rejects: "optimize cfg env locs = Inl InvalidInputError \<longleftrightarrow> length locs < 2"
proof (cases "length locs < 2")
  case True
  then show ?thesis by (simp add: optimize_def)
next
  case False
  then have "2 \<le> length locs" by simp
  from optimize_result [OF this, of cfg env] False show ?thesis by auto
qed

text \<open>
  Claim C1. For every list of at least two locations \<open>optimize\<close> returns a result, and its order
  is a permutation of all input indices \<open>0, ..., n - 1\<close>: it starts with index 0 (the caller's
  start), ends with index \<open>n - 1\<close> (the caller's end), and every index, so every interior index,
  appears exactly once. This holds for every configuration, seed, matrix and signal.
\<close>

theorem optimize_order_is_permutation:
  assumes "2 \<le> length locs"
  shows "\<exists>r. optimize cfg env locs = Inr r \<and>
           mset (order r) = mset [0..<length locs] \<and>
           hd (order r) = 0 \<and> last (order r) = length locs - 1 \<and>
           (\<forall>i < length locs. count_list (order r) i = 1)"
proof -
  let ?n = "length locs"
  obtain r where r: "optimize cfg env locs = Inr r"
    and o: "order r = (if ?n - 2 \<le> 1 then [0..<?n]
             else fst (fst (search cfg env (fst (matrix_ready cfg env locs)) ?n)))"
    using optimize_result [OF assms] by blast
  have p: "mset (order r) = mset [0..<?n] \<and> hd (order r) = 0 \<and> last (order r) = ?n - 1"
  proof (cases "?n - 2 \<le> 1")
    case True
    with o have "order r = [0..<?n]" by simp
    moreover from assms have "0 < ?n" by arith
    then have "hd [0..<?n] = 0" "last [0..<?n] = ?n - 1"
      by (simp_all only: hd_upt last_upt)
    ultimately show ?thesis by simp
  next
    case False
    with o search_path [OF assms] show ?thesis by simp
  qed
  have "count_list (order r) i = 1" if "i < ?n" for i
  proof -
    have "count (mset (order r)) i = count (mset [0..<?n]) i" using p by simp
    also have "\<dots> = 1" using that
      by (simp add: count_mset count_list_0_iff [symmetric] distinct_count_atmost_1 del: upt_Suc)
    finally show ?thesis by (simp add: count_mset)
  qed
  with r p show ?thesis by blast
qed

theorem optimize_order_is_permutation_witness:
  "2 \<le> length five_locations \<and>
   (\<exists>r. optimize brief_config corner_env five_locations = Inr r \<and>
        order r = [0, 2, 3, 1, 4] \<and>
        mset (order r) = mset [0..<5] \<and> hd (order r) = 0 \<and> last (order r) = 4 \<and>
        count_list (order r) 3 = 1)"
proof -
  have a: "2 \<le> length five_locations" by (simp add: five_length)
  from optimize_order_is_permutation [OF a, of brief_config corner_env]
  obtain r where r: "optimize brief_config corner_env five_locations = Inr r"
    and p: "mset (order r) = mset [0..<5]" "hd (order r) = 0" "last (order r) = 4"
      "count_list (order r) 3 = 1"
    by (auto simp: five_length)
  from r have "order r = [0, 2, 3, 1, 4]" by (auto simp: brief_run)
  with a r p show ?thesis by blast
qed

subsection \<open>The result against the input order\<close>




end
